theory Spec2Isabelle
  imports Complex_Main "HOL-Library.Log_Nat"
begin

section \<open>Errors, dates and date keys\<close>

datatype js_error = TypeError | RangeError

text \<open>
  The time value of a JavaScript \<open>Date\<close> is a number of milliseconds since the epoch,
  or \<^verbatim>\<open>NaN\<close>, the invalid date (\<open>None\<close>); a time value more than 8640000000000000 ms
  from the epoch is clipped to \<^verbatim>\<open>NaN\<close>.  All the numbers here are integers below
  \<open>2 ^ 53\<close> wherever the clipping lets them through, so they are modelled as \<open>int\<close>.

  Local time belongs to the host.  \<open>utcOffset env t\<close> is the offset of local time from
  UTC at the instant \<open>t\<close>, and \<open>localOffset env x\<close> the offset by which the local time
  value \<open>x\<close> is turned back into an instant; at a local time that a clock change skips
  or repeats, the host chooses which of the two offsets that is.

  \<^verbatim>\<open>toISOString()\<close> throws a RangeError on an invalid date.  On an instant of the years
  0000 to 9999 its first ten characters are the UTC calendar day \<open>YYYY-MM-DD\<close>, a text
  that is determined by the number of whole days since the epoch: \<open>DayKey d\<close> stands for
  the text of day \<open>d\<close>, and the order of these texts is the order of the days.  On any
  other instant the text starts with a sign and a year of six digits, and its first ten
  characters are not a day; which text they are is left to the host (\<open>expandedKey\<close>).
  \<open>OtherKey s\<close> is also every other key that a history object may have.

  The clock (\<^verbatim>\<open>new Date()\<close>, \<^verbatim>\<open>Date.now()\<close>) is an explicit argument \<open>now\<close>.
\<close>

record host =
  utcOffset :: "int \<Rightarrow> int"
  localOffset :: "int \<Rightarrow> int"
  expandedKey :: "int \<Rightarrow> string"

datatype dateKey = DayKey int | OtherKey string

definition msPerDay :: int where
  "msPerDay = 86400000"

definition maxTime :: int where
  "maxTime = 8640000000000000"

definition timeClip :: "int \<Rightarrow> int option" where
  "timeClip t = (if - maxTime \<le> t \<and> t \<le> maxTime then Some t else None)"

text \<open>The instants from 0000-01-01T00:00:00.000Z to 9999-12-31T23:59:59.999Z.\<close>

definition inYears :: "int \<Rightarrow> bool" where
  "inYears t = (- 62167219200000 \<le> t \<and> t \<le> 253402300799999)"

text \<open>\<^verbatim>\<open>d.toISOString().slice(0, 10)\<close>\<close>

definition isoDateKey :: "host \<Rightarrow> int option \<Rightarrow> js_error + dateKey" where
  "isoDateKey env d =
     (case d of
        None \<Rightarrow> Inl RangeError
      | Some t \<Rightarrow> Inr (if inYears t then DayKey (t div msPerDay) else OtherKey (expandedKey env t)))"

text \<open>
  \<^verbatim>\<open>d.setDate(d.getDate() - i)\<close>: the local time of \<open>d\<close> moved back by \<open>i\<close> calendar days,
  at the same time of day, turned back into an instant and clipped.
\<close>

definition wallClockBack :: "host \<Rightarrow> int \<Rightarrow> int \<Rightarrow> int" where
  "wallClockBack env tv i =
     (let newDate = tv + utcOffset env tv - i * msPerDay
      in newDate - localOffset env newDate)"

definition setDateBack :: "host \<Rightarrow> int option \<Rightarrow> int \<Rightarrow> int option" where
  "setDateBack env d i = (case d of None \<Rightarrow> None | Some tv \<Rightarrow> timeClip (wallClockBack env tv i))"

text \<open>
  \<^verbatim>\<open>
  const todayKey = () => new Date().toISOString().slice(0, 10);

  const lastNDates = (n) => {
    const dates = [];
    const now = new Date();
    for (let i = n - 1; i >= 0; i -= 1) {
      const d = new Date(now);
      d.setDate(now.getDate() - i);
      dates.push(d.toISOString().slice(0, 10));
    }
    return dates;
  };
  \<close>
  The loop of \<open>lastNDates\<close> is a recursive function with the array \<open>dates\<close> as
  accumulator.
\<close>

definition todayKey :: "host \<Rightarrow> int \<Rightarrow> js_error + dateKey" where
  "todayKey env now = isoDateKey env (timeClip now)"

function lastNDates_loop ::
  "host \<Rightarrow> int option \<Rightarrow> int \<Rightarrow> dateKey list \<Rightarrow> js_error + dateKey list" where
  "lastNDates_loop env now i dates =
     (if 0 \<le> i
      then (case isoDateKey env (setDateBack env now i) of
              Inl e \<Rightarrow> Inl e
            | Inr key \<Rightarrow> lastNDates_loop env now (i - 1) (dates @ [key]))
      else Inr dates)"
  by pat_completeness auto
termination
  by (relation "measure (\<lambda>(env, now, i, dates). nat (i + 1))") auto

declare lastNDates_loop.simps [simp del]

definition lastNDates :: "host \<Rightarrow> int \<Rightarrow> int \<Rightarrow> js_error + dateKey list" where
  "lastNDates env now n = lastNDates_loop env (timeClip now) (n - 1) []"

text \<open>
  Notions for stating what a host does: the local time of an instant, and the instant
  of a local time.
\<close>

definition local_time :: "host \<Rightarrow> int \<Rightarrow> int" where
  "local_time env t = t + utcOffset env t"

definition instant_of :: "host \<Rightarrow> int \<Rightarrow> int" where
  "instant_of env x = x - localOffset env x"

text \<open>
  The days walked are regular: for each \<open>j\<close> from 1 to \<open>k\<close>, the local time of \<open>now\<close>
  moved \<open>j\<close> days back is an instant of the UTC day \<open>j\<close> days before today, in the years
  0000 to 9999, and (before the last of them) the local time of that instant is that
  local time again.  A host whose offset from UTC does not change over these days has
  this property.
\<close>

definition walks_days :: "host \<Rightarrow> int \<Rightarrow> nat \<Rightarrow> bool" where
  "walks_days env now k =
     (\<forall>j\<in>{1..k}.
        (let x = local_time env now - int j * msPerDay; u = instant_of env x
         in inYears u \<and> u div msPerDay = now div msPerDay - int j
            \<and> (j < k \<longrightarrow> local_time env u = x)))"

text \<open>
  An example host: America/New_York in 2023, on daylight time (four hours behind UTC)
  from 2023-03-12T07:00Z to 2023-11-05T06:00Z and on standard time (five hours behind)
  otherwise; a local time that is skipped or repeated counts with the offset in force
  before the change.
\<close>

definition new_york_2023 :: host where
  "new_york_2023 =
     \<lparr>utcOffset = (\<lambda>t. if 1678604400000 \<le> t \<and> t < 1699164000000 then - 14400000 else - 18000000),
      localOffset = (\<lambda>x. if 1678590000000 \<le> x \<and> x < 1699149600000 then - 14400000 else - 18000000),
      expandedKey = (\<lambda>t. ''+'')\<rparr>"


section \<open>JavaScript numbers\<close>

text \<open>
  A JavaScript number is an IEEE 754 double.  The values computed here are quotients and
  products of small non-negative integers, so a double is modelled by the rational it
  denotes, and an arithmetic operation by the exact result rounded to the nearest
  double (53 significant bits, ties to the even significand).  The exponent range is
  not bounded: overflow and subnormal numbers need operands beyond \<open>2 ^ 1000\<close>, which
  lengths and counts of arrays never reach.
\<close>

definition roundTiesToEven :: "rat \<Rightarrow> int" where
  "roundTiesToEven z =
     (let f = \<lfloor>z\<rfloor>; r = z - of_int f
      in if r < 1 / 2 then f else if 1 / 2 < r then f + 1 else if even f then f else f + 1)"

text \<open>The binary exponent \<open>e\<close> of a positive rational: \<open>2 ^ e \<le> x < 2 ^ (e + 1)\<close>.\<close>

definition exponent :: "rat \<Rightarrow> int" where
  "exponent x =
     (let d = (if 1 \<le> x then bitlen \<lfloor>x\<rfloor> - 1 else - bitlen \<lfloor>1 / x\<rfloor>)
      in if 2 powi (d + 1) \<le> x then d + 1 else d)"

definition double :: "rat \<Rightarrow> rat" where
  "double x =
     (if x = 0 then 0
      else let u = 2 powi (exponent \<bar>x\<bar> - 52)
           in of_int (roundTiesToEven (x / u)) * u)"

definition js_add :: "rat \<Rightarrow> rat \<Rightarrow> rat" where
  "js_add a b = double (a + b)"

definition js_div :: "rat \<Rightarrow> rat \<Rightarrow> rat" where
  "js_div a b = double (a / b)"

definition js_mul :: "rat \<Rightarrow> rat \<Rightarrow> rat" where
  "js_mul a b = double (a * b)"

text \<open>
  \<^verbatim>\<open>Math.round\<close> is exact on its argument: the nearest integer, the larger one at a
  tie.
\<close>

definition Math_round :: "rat \<Rightarrow> int" where
  "Math_round y = \<lfloor>y + 1 / 2\<rfloor>"

section \<open>Habits and the completion calculator\<close>

text \<open>A habit \<^verbatim>\<open>{ id, label }\<close>; the field \<^verbatim>\<open>id\<close> is \<open>hid\<close> here.\<close>

record habit =
  hid :: string
  label :: string

text \<open>
  The object \<^verbatim>\<open>habits\<close> of a day, from habit id to boolean: the map of its own
  properties.  Reading \<^verbatim>\<open>habitsMap[h.id]\<close> looks the key up in the object and then in
  its prototype, \<^verbatim>\<open>Object.prototype\<close>, for an object literal as for an object parsed
  from JSON; every property found there is a function or an object, hence truthy.
\<close>

type_synonym habitsMap = "string \<rightharpoonup> bool"

definition Object_prototype_keys :: "string list" where
  "Object_prototype_keys =
     [''constructor'', ''hasOwnProperty'', ''isPrototypeOf'', ''propertyIsEnumerable'',
      ''toLocaleString'', ''toString'', ''valueOf'', ''__proto__'',
      ''__defineGetter__'', ''__defineSetter__'', ''__lookupGetter__'', ''__lookupSetter__'']"

definition js_truthy_get :: "habitsMap \<Rightarrow> string \<Rightarrow> bool" where
  "js_truthy_get m k = (case m k of Some b \<Rightarrow> b | None \<Rightarrow> k \<in> set Object_prototype_keys)"

text \<open>
  \<^verbatim>\<open>(habitsList || []).filter((h) => habitsMap[h.id])\<close>.  The first argument may be
  \<^verbatim>\<open>undefined\<close> (\<open>None\<close>): reading a property of \<^verbatim>\<open>undefined\<close> throws a TypeError,
  at the first habit the filter visits; on an empty list the callback never runs.
\<close>

fun filter_completed :: "habitsMap option \<Rightarrow> habit list \<Rightarrow> js_error + habit list" where
  "filter_completed habitsMap [] = Inr []"
| "filter_completed None (h # hs) = Inl TypeError"
| "filter_completed (Some m) (h # hs) = Inr (filter (\<lambda>h. js_truthy_get m (hid h)) (h # hs))"

text \<open>
  \<^verbatim>\<open>
  function percentForDay(habitsMap, habitsList) {
    const total = habitsList?.length || 1;
    const completed = (habitsList || []).filter((h) => habitsMap[h.id]).length;
    return Math.round((completed / total) * 100);
  }
  \<close>
\<close>

definition percentOf :: "nat \<Rightarrow> nat \<Rightarrow> int" where
  "percentOf completed tot = Math_round (js_mul (js_div (of_nat completed) (of_nat tot)) 100)"

definition percentForDay :: "habitsMap option \<Rightarrow> habit list \<Rightarrow> js_error + int" where
  "percentForDay habitsMap habitsList =
     (let tot = (if length habitsList = 0 then 1 else length habitsList)
      in case filter_completed habitsMap habitsList of
           Inl e \<Rightarrow> Inl e
         | Inr completed \<Rightarrow> Inr (percentOf (length completed) tot))"

text \<open>
  The contract of the specification, in its words: \<open>total = max(|H|, 1)\<close>, \<open>completed\<close>
  the number of habits of \<open>H\<close> whose id is present and true in \<open>M\<close>, and the result
  \<open>round(100 * completed / total)\<close> in exact arithmetic.
\<close>

definition spec_completed :: "habitsMap \<Rightarrow> habit list \<Rightarrow> nat" where
  "spec_completed M H = length (filter (\<lambda>h. M (hid h) = Some True) H)"

definition spec_ratio :: "habitsMap \<Rightarrow> habit list \<Rightarrow> rat" where
  "spec_ratio M H = 100 * of_nat (spec_completed M H) / of_nat (max (length H) 1)"

definition spec_percent :: "habitsMap \<Rightarrow> habit list \<Rightarrow> int" where
  "spec_percent M H = round (spec_ratio M H)"

text \<open>Example inputs: forty habits, the first twenty-three of them done.\<close>

definition habits40 :: "habit list" where
  "habits40 =
     map (\<lambda>n. \<lparr>hid = ''habit-'' @ [char_of (48 + n div 10), char_of (48 + n mod 10)],
              label = ''Habit''\<rparr>) [0 ..< 40 :: nat]"

definition day23 :: habitsMap where
  "day23 = map_of (map (\<lambda>h. (hid h, True)) (take 23 habits40))"

section \<open>History and the streak engine\<close>

text \<open>
  A history entry \<^verbatim>\<open>{ habits }\<close>, whose field may be missing, and the history, from
  date key to entry.  An entry that is absent is \<open>None\<close>.
\<close>

record dayRecord =
  habits :: "habitsMap option"

type_synonym history = "dateKey \<rightharpoonup> dayRecord"

text \<open>\<^verbatim>\<open>record.habits || {}\<close>\<close>

definition habitsOrEmpty :: "dayRecord \<Rightarrow> habitsMap" where
  "habitsOrEmpty rec = (case habits rec of None \<Rightarrow> Map.empty | Some m \<Rightarrow> m)"

text \<open>
  \<^verbatim>\<open>
  function calculateStreak(history, habits) {
    let streak = 0;
    let cursor = new Date();
    while (true) {
      const key = cursor.toISOString().slice(0, 10);
      const record = history[key];
      if (!record) break;
      const percent = percentForDay(record.habits || {}, habits);
      if (percent === 100) { streak += 1; cursor.setDate(cursor.getDate() - 1); }
      else { break; }
    }
    return streak;
  }
  \<close>
  The loop has no bound of its own; a run that never leaves it is \<open>None\<close>.
\<close>

partial_function (option) calculateStreak_loop ::
  "host \<Rightarrow> history \<Rightarrow> habit list \<Rightarrow> int option \<Rightarrow> nat \<Rightarrow> (js_error + nat) option" where
  "calculateStreak_loop env history habitList cursor streak =
     (case isoDateKey env cursor of
        Inl e \<Rightarrow> Some (Inl e)
      | Inr key \<Rightarrow>
          (case history key of
             None \<Rightarrow> Some (Inr streak)
           | Some rec \<Rightarrow>
               (case percentForDay (Some (habitsOrEmpty rec)) habitList of
                  Inl e \<Rightarrow> Some (Inl e)
                | Inr percent \<Rightarrow>
                    if percent = 100
                    then calculateStreak_loop env history habitList (setDateBack env cursor 1)
                           (streak + 1)
                    else Some (Inr streak))))"

definition calculateStreak ::
  "host \<Rightarrow> int \<Rightarrow> history \<Rightarrow> habit list \<Rightarrow> (js_error + nat) option" where
  "calculateStreak env now history habitList =
     calculateStreak_loop env history habitList (timeClip now) 0"

text \<open>A day at 100% completion: it has an entry, and \<open>percentForDay\<close> of it is 100.\<close>

definition perfectDay :: "history \<Rightarrow> habit list \<Rightarrow> dateKey \<Rightarrow> bool" where
  "perfectDay history habitList key =
     (case history key of
        None \<Rightarrow> False
      | Some rec \<Rightarrow>
          percentForDay (Some (case habits rec of None \<Rightarrow> Map.empty | Some m \<Rightarrow> m)) habitList
          = Inr 100)"

section \<open>Weekly aggregation\<close>

fun map_result :: "('a \<Rightarrow> 'e + 'b) \<Rightarrow> 'a list \<Rightarrow> 'e + 'b list" where
  "map_result f [] = Inr []"
| "map_result f (x # xs) =
     (case f x of
        Inl e \<Rightarrow> Inl e
      | Inr y \<Rightarrow> (case map_result f xs of Inl e \<Rightarrow> Inl e | Inr ys \<Rightarrow> Inr (y # ys)))"

text \<open>\<^verbatim>\<open>history[day]?.habits || {}\<close>\<close>

definition dayHabits :: "history \<Rightarrow> dateKey \<Rightarrow> habitsMap" where
  "dayHabits history day = (case history day of None \<Rightarrow> Map.empty | Some rec \<Rightarrow> habitsOrEmpty rec)"

text \<open>
  \<^verbatim>\<open>
  const weeklyPercentages = useMemo(() => {
    const days = lastNDates(7);
    return days.map((day) => percentForDay(history[day]?.habits || {}, habits));
  }, [history, habits]);

  const weeklyAverage = useMemo(() => {
    if (!weeklyPercentages.length) return 0;
    return Math.round(
      weeklyPercentages.reduce((sum, val) => sum + val, 0) / weeklyPercentages.length);
  }, [weeklyPercentages]);
  \<close>
\<close>

definition weeklyPercentages ::
  "host \<Rightarrow> int \<Rightarrow> history \<Rightarrow> habit list \<Rightarrow> js_error + int list" where
  "weeklyPercentages env now history habitList =
     (case lastNDates env now 7 of
        Inl e \<Rightarrow> Inl e
      | Inr days \<Rightarrow>
          map_result (\<lambda>day. percentForDay (Some (dayHabits history day)) habitList) days)"

definition weeklyAverage :: "int list \<Rightarrow> int" where
  "weeklyAverage percentages =
     (if length percentages = 0 then 0
      else Math_round (js_div (foldl (\<lambda>sum val. js_add sum (of_int val)) 0 percentages)
                              (of_nat (length percentages))))"

text \<open>The specification's \<open>round(mean(series))\<close>, in exact arithmetic.\<close>

definition spec_round_mean :: "int list \<Rightarrow> int" where
  "spec_round_mean xs = round (of_int (sum_list xs) / of_nat (length xs) :: rat)"

section \<open>Monthly insight\<close>

text \<open>
  The object \<^verbatim>\<open>counts\<close> is read back with \<^verbatim>\<open>Object.entries\<close>, so the order of its keys
  matters.  An object is modelled by the list of its own properties in enumeration
  order: the keys that are array indices (canonical decimal numerals below
  \<open>2 ^ 32 - 1\<close>) in ascending numeric order, then the other keys in the order of their
  creation.
\<close>

type_synonym 'v jsobject = "(string \<times> 'v) list"

definition is_digit :: "char \<Rightarrow> bool" where
  "is_digit c = (48 \<le> (of_char c :: int) \<and> (of_char c :: int) \<le> 57)"

definition index_value :: "string \<Rightarrow> int" where
  "index_value s = foldl (\<lambda>acc c. 10 * acc + (of_char c - 48)) 0 s"

definition is_array_index :: "string \<Rightarrow> bool" where
  "is_array_index s =
     (s \<noteq> [] \<and> list_all is_digit s \<and> (hd s \<noteq> CHR ''0'' \<or> s = ''0'')
      \<and> index_value s < 4294967295)"

fun obj_insert_index :: "string \<Rightarrow> 'v \<Rightarrow> 'v jsobject \<Rightarrow> 'v jsobject" where
  "obj_insert_index k v [] = [(k, v)]"
| "obj_insert_index k v ((k', v') # rest) =
     (if is_array_index k' \<and> index_value k' < index_value k
      then (k', v') # obj_insert_index k v rest
      else (k, v) # (k', v') # rest)"

text \<open>
  Defining or assigning the own property \<open>k\<close>: an existing key keeps its place, a new
  one is put where the enumeration order has it.
\<close>

definition obj_set :: "string \<Rightarrow> 'v \<Rightarrow> 'v jsobject \<Rightarrow> 'v jsobject" where
  "obj_set k v obj =
     (if k \<in> fst ` set obj then map (\<lambda>(k', v'). if k' = k then (k', v) else (k', v')) obj
      else if is_array_index k then obj_insert_index k v obj
      else obj @ [(k, v)])"

text \<open>
  \<^verbatim>\<open>counts[h.id] += 1\<close>.  The key is always an own property of \<open>counts\<close>, which was
  built from the same habit list; the branch for a missing key is never taken.
\<close>

definition obj_incr :: "string \<Rightarrow> nat jsobject \<Rightarrow> nat jsobject" where
  "obj_incr k obj = (case map_of obj k of Some v \<Rightarrow> obj_set k (v + 1) obj | None \<Rightarrow> obj)"

text \<open>\<^verbatim>\<open>record.habits?.[h.id]\<close>, as a condition\<close>

definition record_truthy :: "dayRecord \<Rightarrow> string \<Rightarrow> bool" where
  "record_truthy rec k = (case habits rec of None \<Rightarrow> False | Some m \<Rightarrow> js_truthy_get m k)"

record insight =
  bestHabit :: "habit option"
  worstHabit :: "habit option"

text \<open>
  \<^verbatim>\<open>
  function monthlyInsight(history, habits) {
    const days = lastNDates(30);
    const counts = habits.reduce((acc, h) => ({ ...acc, [h.id]: 0 }), {});
    days.forEach((day) => {
      const record = history[day];
      if (!record) return;
      habits.forEach((h) => {
        if (record.habits?.[h.id]) counts[h.id] += 1;
      });
    });
    const entries = Object.entries(counts);
    if (!entries.length) return { bestHabit: null, worstHabit: null };
    const best = entries.reduce((a, b) => (b[1] > a[1] ? b : a));
    const worst = entries.reduce((a, b) => (b[1] < a[1] ? b : a));
    return {
      bestHabit: habits.find((h) => h.id === best[0]) || null,
      worstHabit: habits.find((h) => h.id === worst[0]) || null,
    };
  }
  \<close>
\<close>

definition initial_counts :: "habit list \<Rightarrow> nat jsobject" where
  "initial_counts habitList = foldl (\<lambda>acc h. obj_set (hid h) 0 acc) [] habitList"

definition count_day :: "history \<Rightarrow> habit list \<Rightarrow> nat jsobject \<Rightarrow> dateKey \<Rightarrow> nat jsobject" where
  "count_day history habitList counts day =
     (case history day of
        None \<Rightarrow> counts
      | Some rec \<Rightarrow>
          foldl (\<lambda>counts h. if record_truthy rec (hid h) then obj_incr (hid h) counts else counts)
            counts habitList)"

definition monthlyInsight :: "host \<Rightarrow> int \<Rightarrow> history \<Rightarrow> habit list \<Rightarrow> js_error + insight" where
  "monthlyInsight env now history habitList =
     (case lastNDates env now 30 of
        Inl e \<Rightarrow> Inl e
      | Inr days \<Rightarrow>
          Inr (let counts = foldl (count_day history habitList) (initial_counts habitList) days;
                   entries = counts
               in if length entries = 0 then \<lparr>bestHabit = None, worstHabit = None\<rparr>
                  else
                    let best = foldl (\<lambda>a b. if snd b > snd a then b else a) (hd entries) (tl entries);
                        worst = foldl (\<lambda>a b. if snd b < snd a then b else a) (hd entries) (tl entries)
                    in \<lparr>bestHabit = find (\<lambda>h. hid h = fst best) habitList,
                        worstHabit = find (\<lambda>h. hid h = fst worst) habitList\<rparr>))"

text \<open>
  The specification's count of a habit: the number of days of the window that have an
  entry in which the habit is true.
\<close>

definition spec_true_count :: "dateKey list \<Rightarrow> history \<Rightarrow> habit \<Rightarrow> nat" where
  "spec_true_count days history h =
     length (filter (\<lambda>day. case history day of
                             None \<Rightarrow> False
                           | Some rec \<Rightarrow>
                               (case habits rec of None \<Rightarrow> False | Some m \<Rightarrow> m (hid h) = Some True))
               days)"

section \<open>Adding and removing a habit\<close>

text \<open>
  Text is a list of 8-bit characters.  \<^verbatim>\<open>trim\<close> removes white space and line
  terminators at both ends; \<^verbatim>\<open>toLowerCase\<close> changes the letters A to Z (what it does
  to other characters does not matter to \<open>slugify\<close>, which replaces them).
\<close>

definition is_js_space :: "char \<Rightarrow> bool" where
  "is_js_space c = ((of_char c :: int) \<in> {9, 10, 11, 12, 13, 32, 160})"

definition js_trim :: "string \<Rightarrow> string" where
  "js_trim s = rev (dropWhile is_js_space (rev (dropWhile is_js_space s)))"

definition toLowerCase :: "string \<Rightarrow> string" where
  "toLowerCase s =
     map (\<lambda>c. if 65 \<le> (of_char c :: int) \<and> (of_char c :: int) \<le> 90
              then char_of ((of_char c :: int) + 32) else c) s"

definition is_slug_char :: "char \<Rightarrow> bool" where
  "is_slug_char c =
     ((97 \<le> (of_char c :: int) \<and> (of_char c :: int) \<le> 122)
      \<or> (48 \<le> (of_char c :: int) \<and> (of_char c :: int) \<le> 57))"

text \<open>\<^verbatim>\<open>.replace(/[^a-z0-9]+/g, '-')\<close>: every maximal run of other characters becomes one dash.\<close>

function replace_runs :: "string \<Rightarrow> string" where
  "replace_runs [] = []"
| "replace_runs (c # cs) =
     (if is_slug_char c then c # replace_runs cs
      else CHR ''-'' # replace_runs (dropWhile (\<lambda>d. \<not> is_slug_char d) cs))"
  by pat_completeness auto
termination
  by (relation "measure length") (auto simp: length_dropWhile_le less_Suc_eq_le)

text \<open>\<^verbatim>\<open>.replace(/(^-|-$)/g, '')\<close>: a dash at the start and a dash at the end are removed.\<close>

definition strip_dashes :: "string \<Rightarrow> string" where
  "strip_dashes s =
     (let s1 = (if s \<noteq> [] \<and> hd s = CHR ''-'' then tl s else s)
      in if s1 \<noteq> [] \<and> last s1 = CHR ''-'' then butlast s1 else s1)"

text \<open>The decimal text of a number, for \<^verbatim>\<open>${Date.now()}\<close>.\<close>

function digits :: "int \<Rightarrow> string" where
  "digits n =
     (if n < 10 then [char_of (48 + n)] else digits (n div 10) @ [char_of (48 + n mod 10)])"
  by pat_completeness auto
termination
  by (relation "measure nat") auto

declare digits.simps [simp del]

definition number_text :: "int \<Rightarrow> string" where
  "number_text i = (if i < 0 then CHR ''-'' # digits (- i) else digits i)"

text \<open>
  \<^verbatim>\<open>
  function slugify(text) {
    return text.toLowerCase().replace(/[^a-z0-9]+/g, '-').replace(/(^-|-$)/g, '')
      .slice(0, 30) || `habit-${Date.now()}`;
  }
  \<close>
\<close>

definition slugify :: "int \<Rightarrow> string \<Rightarrow> string" where
  "slugify now txt =
     (let s = take 30 (strip_dashes (replace_runs (toLowerCase txt)))
      in if s = [] then ''habit-'' @ number_text now else s)"

text \<open>
  \<^verbatim>\<open>entry.habits[id] = false\<close>.  The assignment creates or overwrites the own property,
  except for the key \<^verbatim>\<open>__proto__\<close> when it is not an own property: then it reaches the
  setter inherited from \<open>Object.prototype\<close>, which ignores a boolean.
\<close>

definition js_assign :: "habitsMap \<Rightarrow> string \<Rightarrow> bool \<Rightarrow> habitsMap" where
  "js_assign m k v = (if k = ''__proto__'' \<and> m k = None then m else m(k \<mapsto> v))"

text \<open>The part of the component state that the two handlers read and write.\<close>

record appState =
  app_habits :: "habit list"
  app_history :: history
  app_newHabit :: string

text \<open>
  \<^verbatim>\<open>
  const handleAddHabit = (e) => {
    e.preventDefault();
    const trimmed = newHabit.trim();
    if (!trimmed) return;
    const id = slugify(trimmed);
    if (habits.some((h) => h.id === id)) return;
    setHabits((prev) => [...prev, { id, label: trimmed }]);
    setHistory((prev) => {
      const next = { ...prev };
      Object.keys(next).forEach((key) => {
        const entry = next[key] || { habits: {} };
        if (!entry.habits) entry.habits = {};
        entry.habits[id] = false;
        next[key] = entry;
      });
      return next;
    });
    setNewHabit('');
  };
  \<close>
\<close>

definition backfill :: "string \<Rightarrow> history \<Rightarrow> history" where
  "backfill ident prev =
     (\<lambda>key. case prev key of
               None \<Rightarrow> None
             | Some entry \<Rightarrow> Some (entry\<lparr>habits := Some (js_assign (habitsOrEmpty entry) ident False)\<rparr>))"

definition handleAddHabit :: "int \<Rightarrow> appState \<Rightarrow> appState" where
  "handleAddHabit now st =
     (let trimmed = js_trim (app_newHabit st)
      in if trimmed = [] then st
         else let ident = slugify now trimmed
              in if list_ex (\<lambda>h. hid h = ident) (app_habits st) then st
                 else st\<lparr>app_habits := app_habits st @ [\<lparr>hid = ident, label = trimmed\<rparr>],
                         app_history := backfill ident (app_history st),
                         app_newHabit := []\<rparr>)"

text \<open>
  \<^verbatim>\<open>
  const handleDeleteHabit = (id) => {
    setHabits((prev) => prev.filter((h) => h.id !== id));
    setHistory((prev) => {
      const next = { ...prev };
      Object.keys(next).forEach((key) => {
        if (next[key]?.habits) delete next[key].habits[id];
      });
      return next;
    });
  };
  \<close>
\<close>

definition delete_key :: "string \<Rightarrow> history \<Rightarrow> history" where
  "delete_key ident prev =
     (\<lambda>key. case prev key of
               None \<Rightarrow> None
             | Some entry \<Rightarrow>
                 (case habits entry of
                    None \<Rightarrow> Some entry
                  | Some m \<Rightarrow> Some (entry\<lparr>habits := Some (m(ident := None))\<rparr>)))"

definition handleDeleteHabit :: "string \<Rightarrow> appState \<Rightarrow> appState" where
  "handleDeleteHabit ident st =
     st\<lparr>app_habits := filter (\<lambda>h. hid h \<noteq> ident) (app_habits st),
        app_history := delete_key ident (app_history st)\<rparr>"

section \<open>The handler of POST /api/data\<close>

text \<open>Request bodies and documents are JSON values; an object lists its members.\<close>

datatype json =
    JNull
  | JBool bool
  | JNum rat
  | JStr string
  | JArr "json list"
  | JObj "(string \<times> json) list"

definition DEFAULT_HABITS :: "json list" where
  "DEFAULT_HABITS =
     [JObj [(''id'', JStr ''wake''), (''label'', JStr ''Wake up early'')],
      JObj [(''id'', JStr ''exercise''), (''label'', JStr ''Exercise'')],
      JObj [(''id'', JStr ''study''), (''label'', JStr ''Study / Learn new skill'')],
      JObj [(''id'', JStr ''problems''), (''label'', JStr ''2 problems a day'')],
      JObj [(''id'', JStr ''water''), (''label'', JStr ''Drink enough water'')],
      JObj [(''id'', JStr ''meditate''), (''label'', JStr ''Meditation'')],
      JObj [(''id'', JStr ''read''), (''label'', JStr ''Reading'')]]"

fun truthy :: "json \<Rightarrow> bool" where
  "truthy JNull = False"
| "truthy (JBool b) = b"
| "truthy (JNum n) = (n \<noteq> 0)"
| "truthy (JStr s) = (s \<noteq> [])"
| "truthy (JArr xs) = True"
| "truthy (JObj kvs) = True"

text \<open>\<^verbatim>\<open>req.body || {}\<close>; a request without a parsed body has \<open>None\<close>.\<close>

definition body_or_empty :: "json option \<Rightarrow> json" where
  "body_or_empty body = (case body of None \<Rightarrow> JObj [] | Some b \<Rightarrow> if truthy b then b else JObj [])"

text \<open>
  Reading a property by name, as the destructuring pattern does: a member of an
  object, and \<^verbatim>\<open>undefined\<close> (\<open>None\<close>) on every other value for the three names read
  here.
\<close>

fun field :: "json \<Rightarrow> string \<Rightarrow> json option" where
  "field (JObj kvs) k = map_of kvs k"
| "field v k = None"

record document =
  doc_mobile :: string
  doc_habits :: json
  doc_history :: json
  doc_tasksByDate :: json

text \<open>
  \<^verbatim>\<open>
  const { habits = DEFAULT_HABITS, history = {}, tasksByDate = {} } = req.body || {};
  const update = {
    mobile: req.mobile,
    habits: Array.isArray(habits) && habits.length ? habits : DEFAULT_HABITS,
    history: history || {},
    tasksByDate: tasksByDate || {},
  };
  \<close>
\<close>

definition post_update :: "string \<Rightarrow> json option \<Rightarrow> document" where
  "post_update mobile body =
     (let b = body_or_empty body;
          habits_v = (case field b ''habits'' of None \<Rightarrow> JArr DEFAULT_HABITS | Some v \<Rightarrow> v);
          history_v = (case field b ''history'' of None \<Rightarrow> JObj [] | Some v \<Rightarrow> v);
          tasks_v = (case field b ''tasksByDate'' of None \<Rightarrow> JObj [] | Some v \<Rightarrow> v)
      in \<lparr>doc_mobile = mobile,
          doc_habits = (case habits_v of
                          JArr xs \<Rightarrow> if length xs \<noteq> 0 then habits_v else JArr DEFAULT_HABITS
                        | _ \<Rightarrow> JArr DEFAULT_HABITS),
          doc_history = (if truthy history_v then history_v else JObj []),
          doc_tasksByDate = (if truthy tasks_v then tasks_v else JObj [])\<rparr>)"

text \<open>
  A response: a status with a JSON body, or a status with the error page of the
  framework.
\<close>

datatype response = Json nat json | ErrorPage nat

text \<open>
  \<^verbatim>\<open>app.use(express.json({ limit: '1mb' }))\<close> runs before the route.  It parses in
  strict mode: a JSON text that is an object or an array becomes \<^verbatim>\<open>req.body\<close>, any other
  JSON value is refused with status 400 and the route is not reached.  The argument is
  the JSON value that the request carries, \<open>None\<close> for a request without a JSON body;
  a text that is not JSON (400) or is longer than the limit (413) is not a value of
  this type.
\<close>

fun is_primitive :: "json \<Rightarrow> bool" where
  "is_primitive (JArr xs) = False"
| "is_primitive (JObj kvs) = False"
| "is_primitive v = True"

definition express_json :: "json option \<Rightarrow> response + json option" where
  "express_json raw =
     (case raw of
        None \<Rightarrow> Inr None
      | Some v \<Rightarrow> if is_primitive v then Inl (ErrorPage 400) else Inr (Some v))"

text \<open>
  The route, with its middleware \<open>requireMobile\<close>.  The store is behind the argument
  \<open>findOneAndUpdate\<close>, which stands for
  \<^verbatim>\<open>UserData.findOneAndUpdate({ mobile }, update, { new: true, upsert: true, ... }).lean()\<close>:
  given the key and the update it returns the document as saved, or fails (\<open>None\<close>), and
  the handler then answers 500.
  \<^verbatim>\<open>
  function requireMobile(req, res, next) {
    const mobile = req.header('x-user-mobile');
    if (!mobile) return res.status(401).json({ error: 'Missing mobile header' });
    req.mobile = mobile;
    return next();
  }
  app.post('/api/data', requireMobile, async (req, res) => {
    try {
      ...
      const doc = await UserData.findOneAndUpdate(...).lean();
      return res.json({ habits: doc.habits, history: doc.history, tasksByDate: doc.tasksByDate });
    } catch (err) {
      return res.status(500).json({ error: 'Failed to save data' });
    }
  });
  \<close>
\<close>

definition post_data ::
  "(string \<Rightarrow> document \<Rightarrow> document option) \<Rightarrow> string option \<Rightarrow> json option \<Rightarrow> response" where
  "post_data findOneAndUpdate header raw =
     (case express_json raw of
        Inl refused \<Rightarrow> refused
      | Inr body \<Rightarrow>
          (case header of
             None \<Rightarrow> Json 401 (JObj [(''error'', JStr ''Missing mobile header'')])
           | Some mobile \<Rightarrow>
               if mobile = [] then Json 401 (JObj [(''error'', JStr ''Missing mobile header'')])
               else (case findOneAndUpdate mobile (post_update mobile body) of
                       None \<Rightarrow> Json 500 (JObj [(''error'', JStr ''Failed to save data'')])
                     | Some doc \<Rightarrow>
                         Json 200 (JObj [(''habits'', doc_habits doc),
                                         (''history'', doc_history doc),
                                         (''tasksByDate'', doc_tasksByDate doc)]))))"

section \<open>The reminder scheduler\<close>

record task =
  task_id :: string
  task_text :: string
  task_done :: bool
  reminderTime :: string

text \<open>
  The timers of the page and the registry \<^verbatim>\<open>ref.current\<close>.  A pending timer is its id,
  the task it will remind of and its delay in milliseconds (\<open>None\<close> for \<^verbatim>\<open>NaN\<close>, the
  delay of an invalid date); \<open>nextId\<close> is the id that \<^verbatim>\<open>setTimeout\<close> hands out next.
  The registry is an object from task id to timer id.
\<close>

record reminders =
  pending :: "(nat \<times> task \<times> int option) list"
  nextId :: nat
  current :: "nat jsobject"

text \<open>
  \<^verbatim>\<open>ref.current[task.id] = id\<close>: as for a habit map, the key \<^verbatim>\<open>__proto__\<close> that is not
  an own property reaches the inherited setter, which ignores a number.
\<close>

definition obj_assign :: "string \<Rightarrow> 'v \<Rightarrow> 'v jsobject \<Rightarrow> 'v jsobject" where
  "obj_assign k v obj = (if k = ''__proto__'' \<and> k \<notin> fst ` set obj then obj else obj_set k v obj)"

text \<open>
  \<^verbatim>\<open>
  function scheduleReminders(tasksByDate, ref) {
    Object.values(ref.current).forEach(clearTimeout);
    ref.current = {};
    const now = Date.now();
    Object.entries(tasksByDate).forEach(([date, list]) => {
      list.forEach((task) => {
        if (!task.reminderTime) return;
        const due = new Date(`${date}T${task.reminderTime}`);
        const delay = due.getTime() - now;
        if (delay <= 0) return;
        const id = setTimeout(() => triggerReminder(task), delay);
        ref.current[task.id] = id;
      });
    });
  }
  \<close>
  The argument \<open>parse\<close> stands for \<^verbatim>\<open>new Date(`${date}T${time}`).getTime()\<close>, the fire
  instant in milliseconds, \<open>None\<close> when the text is not a date.  A comparison with
  \<^verbatim>\<open>NaN\<close> is false, so a task with such a date is not skipped.
\<close>

definition clearTimeouts :: "nat list \<Rightarrow> (nat \<times> task \<times> int option) list \<Rightarrow> (nat \<times> task \<times> int option) list" where
  "clearTimeouts ids timers = filter (\<lambda>(i, t, d). i \<notin> set ids) timers"

definition schedule_task ::
  "(string \<Rightarrow> string \<Rightarrow> int option) \<Rightarrow> int \<Rightarrow> string \<Rightarrow> reminders \<Rightarrow> task \<Rightarrow> reminders" where
  "schedule_task parse now date st t =
     (if reminderTime t = [] then st
      else let delay = (case parse date (reminderTime t) of None \<Rightarrow> None | Some due \<Rightarrow> Some (due - now))
           in if (case delay of None \<Rightarrow> False | Some d \<Rightarrow> d \<le> 0) then st
              else st\<lparr>pending := pending st @ [(nextId st, t, delay)],
                      nextId := nextId st + 1,
                      current := obj_assign (task_id t) (nextId st) (current st)\<rparr>)"

definition scheduleReminders ::
  "(string \<Rightarrow> string \<Rightarrow> int option) \<Rightarrow> int \<Rightarrow> (string \<times> task list) list \<Rightarrow> reminders \<Rightarrow> reminders" where
  "scheduleReminders parse now tasksByDate st =
     foldl (\<lambda>st (date, list). foldl (schedule_task parse now date) st list)
       (st\<lparr>pending := clearTimeouts (map snd (current st)) (pending st), current := []\<rparr>)
       tasksByDate"

text \<open>
  A task that is to get an action: its reminder time is not empty and its fire instant
  is a date after \<open>now\<close>.
\<close>

definition gets_action :: "(string \<Rightarrow> string \<Rightarrow> int option) \<Rightarrow> int \<Rightarrow> string \<times> task \<Rightarrow> bool" where
  "gets_action parse now dt =
     (reminderTime (snd dt) \<noteq> []
      \<and> (case parse (fst dt) (reminderTime (snd dt)) of None \<Rightarrow> False | Some due \<Rightarrow> now < due))"

definition all_tasks :: "(string \<times> task list) list \<Rightarrow> (string \<times> task) list" where
  "all_tasks tasksByDate = concat (map (\<lambda>(date, list). map (Pair date) list) tasksByDate)"

text \<open>Every pending action is registered in \<^verbatim>\<open>ref.current\<close>.\<close>

definition tracked :: "reminders \<Rightarrow> bool" where
  "tracked st = (fst ` set (pending st) \<subseteq> snd ` set (current st))"

text \<open>
  Example fire instants: a reminder on a date of 2030 is due at 1900000000000, one on
  any other date at 1600000000000.
\<close>

definition sample_due :: "string \<Rightarrow> string \<Rightarrow> int option" where
  "sample_due date time = (if take 4 date = ''2030'' then Some 1900000000000 else Some 1600000000000)"

section \<open>Properties of the date utilities\<close>

lemma timeClip_inYears: "inYears t \<Longrightarrow> timeClip t = Some t"
  by (simp add: inYears_def timeClip_def maxTime_def)

lemma isoDateKey_inYears:
  "inYears t \<Longrightarrow> isoDateKey env (Some t) = Inr (DayKey (t div msPerDay))"
  by (simp add: isoDateKey_def)

lemma wallClockBack_eq:
  "wallClockBack env tv i = instant_of env (local_time env tv - i * msPerDay)"
  by (simp add: wallClockBack_def instant_of_def local_time_def Let_def)

lemma setDateBack_inYears:
  "inYears (wallClockBack env tv i) \<Longrightarrow>
   setDateBack env (Some tv) i = Some (wallClockBack env tv i)"
  by (simp add: setDateBack_def timeClip_inYears)

lemma lastNDates_loop_eq:
  assumes "- 1 \<le> i" and "\<forall>j. 0 \<le> j \<and> j \<le> i \<longrightarrow> inYears (wallClockBack env tv j)"
  shows "lastNDates_loop env (Some tv) i dates
         = Inr (dates @ map (\<lambda>j. DayKey (wallClockBack env tv j div msPerDay)) (rev [0..i]))"
  using assms
proof (induction env "Some tv" i dates rule: lastNDates_loop.induct)
  case (1 env i dates)
  show ?case
  proof (cases "0 \<le> i")
    case True
    have up: "[0..i] = [0..i - 1] @ [i]"
      using True by (simp add: upto_rec2)
    have y: "inYears (wallClockBack env tv i)" using True "1.prems"(2) by simp
    have key: "isoDateKey env (setDateBack env (Some tv) i)
               = Inr (DayKey (wallClockBack env tv i div msPerDay))"
      using y by (simp add: setDateBack_inYears isoDateKey_inYears)
    have "lastNDates_loop env (Some tv) i dates
          = lastNDates_loop env (Some tv) (i - 1)
              (dates @ [DayKey (wallClockBack env tv i div msPerDay)])"
      using True by (subst lastNDates_loop.simps) (simp add: key)
    also have "\<dots> = Inr ((dates @ [DayKey (wallClockBack env tv i div msPerDay)])
                     @ map (\<lambda>j. DayKey (wallClockBack env tv j div msPerDay)) (rev [0..i - 1]))"
      using True "1.prems"(2) key by (intro "1.hyps") simp_all
    finally show ?thesis
      by (simp add: up)
  next
    case False
    with "1.prems"(1) have "i = - 1" by simp
    then show ?thesis
      by (subst lastNDates_loop.simps) simp
  qed
qed

lemma lastNDates_length:
  "lastNDates_loop env now i dates = Inr ds \<Longrightarrow> - 1 \<le> i \<Longrightarrow>
   length ds = length dates + nat (i + 1)"
proof (induction env now i dates arbitrary: ds rule: lastNDates_loop.induct)
  case (1 env now i dates)
  show ?case
  proof (cases "0 \<le> i")
    case True
    from "1.prems"(1) True obtain key where
      k: "isoDateKey env (setDateBack env now i) = Inr key"
      and r: "lastNDates_loop env now (i - 1) (dates @ [key]) = Inr ds"
      by (subst (asm) lastNDates_loop.simps) (auto split: sum.splits)
    from "1.IH"[OF True k r] True show ?thesis by simp
  next
    case False
    with "1.prems" have "ds = dates"
      by (subst (asm) lastNDates_loop.simps) simp
    with False "1.prems"(2) show ?thesis by simp
  qed
qed

lemma length_lastNDates: "lastNDates env now n = Inr days \<Longrightarrow> 0 \<le> n \<Longrightarrow> length days = nat n"
  using lastNDates_length[of env "timeClip now" "n - 1" "[]" days]
  by (simp add: lastNDates_def)

lemma antitone_steps:
  fixes g :: "int \<Rightarrow> int"
  assumes "\<forall>i. 0 \<le> i \<and> i < m \<longrightarrow> g (i + 1) \<le> g i" and "0 \<le> a" and "a \<le> b" and "b \<le> m"
  shows "g b \<le> g a"
  using assms(3,4)
proof (induction b rule: int_ge_induct)
  case base
  then show ?case by simp
next
  case (step i)
  then have "g i \<le> g a" by simp
  moreover have "g (i + 1) \<le> g i"
    using assms(1,2) step by simp
  ultimately show ?case by simp
qed

lemma sorted_back:
  fixes g :: "int \<Rightarrow> int"
  assumes "\<forall>i. 0 \<le> i \<and> i < m \<longrightarrow> g (i + 1) \<le> g i"
  shows "sorted (map g (rev [0..m]))"
proof -
  have "sorted_wrt (\<lambda>x y. g y \<le> g x) [0..m]"
  proof (rule sorted_wrt_mono_rel[OF _ sorted_wrt_upto])
    fix x y assume "x \<in> set [0..m]" "y \<in> set [0..m]" "x < y"
    then show "g y \<le> g x"
      using antitone_steps[OF assms, of x y] by simp
  qed
  then show ?thesis
    by (simp add: sorted_wrt_map sorted_wrt_rev rev_map[symmetric] del: rev_map)
qed

text \<open>
  C3 (amended): for every \<open>n \<ge> 1\<close>, when each of the \<open>n\<close> instants (the local time of
  \<open>now\<close> moved back by 0 to \<open>n - 1\<close> days) lies in the years 0000 to 9999, an earlier
  local day is never a later instant, and the local time of \<open>now\<close> is read back as an
  instant of today's UTC day, \<open>lastNDates(n)\<close> returns exactly \<open>n\<close> date keys, sorted
  ascending (oldest first), the last of which is \<open>todayKey()\<close> read at the same instant.
\<close>

theorem C3_lastNDates:
  assumes "1 \<le> n" and "inYears now"
    and "\<forall>i. 0 \<le> i \<and> i < n \<longrightarrow> inYears (instant_of env (local_time env now - i * msPerDay))"
    and "\<forall>i. 0 \<le> i \<and> i < n - 1 \<longrightarrow>
           instant_of env (local_time env now - (i + 1) * msPerDay)
           \<le> instant_of env (local_time env now - i * msPerDay)"
    and "instant_of env (local_time env now) div msPerDay = now div msPerDay"
  shows "\<exists>ds. lastNDates env now n = Inr (map DayKey ds) \<and> int (length ds) = n \<and> sorted ds
            \<and> todayKey env now = Inr (DayKey (last ds))"
proof -
  define g where "g = (\<lambda>j. wallClockBack env now j div msPerDay)"
  define ds where "ds = map g (rev [0..n - 1])"
  have yrs: "\<forall>j. 0 \<le> j \<and> j \<le> n - 1 \<longrightarrow> inYears (wallClockBack env now j)"
    using assms(3) by (simp add: wallClockBack_eq)
  have "lastNDates env now n
        = Inr ([] @ map (\<lambda>j. DayKey (wallClockBack env now j div msPerDay)) (rev [0..n - 1]))"
    unfolding lastNDates_def timeClip_inYears[OF assms(2)]
    using assms(1) yrs by (intro lastNDates_loop_eq) simp_all
  then have r: "lastNDates env now n = Inr (map DayKey ds)"
    by (simp add: ds_def g_def rev_map comp_def)
  have len: "int (length ds) = n" using assms(1) by (simp add: ds_def)
  have step: "\<forall>i. 0 \<le> i \<and> i < n - 1 \<longrightarrow> g (i + 1) \<le> g i"
  proof (intro allI impI)
    fix i assume "0 \<le> i \<and> i < n - 1"
    with assms(4) have "wallClockBack env now (i + 1) \<le> wallClockBack env now i"
      by (simp add: wallClockBack_eq)
    then show "g (i + 1) \<le> g i"
      unfolding g_def msPerDay_def by (intro zdiv_mono1) simp_all
  qed
  have srt: "sorted ds" unfolding ds_def using step by (rule sorted_back)
  have "[0..n - 1] = 0 # [1..n - 1]" using assms(1) by (simp add: upto_rec1)
  then have "last ds = g 0" by (simp add: ds_def)
  also have "\<dots> = now div msPerDay"
    using assms(5) by (simp add: g_def wallClockBack_eq)
  finally have l: "last ds = now div msPerDay" .
  have "todayKey env now = Inr (DayKey (last ds))"
    using assms(2) by (simp add: todayKey_def timeClip_inYears isoDateKey_inYears l)
  with r len srt show ?thesis by blast
qed

theorem C3_lastNDates_witness:
  "lastNDates new_york_2023 1678663800000 3 = Inr (map DayKey [19427, 19428, 19428])
   \<and> sorted [19427, 19428, 19428 :: int]
   \<and> todayKey new_york_2023 1678663800000 = Inr (DayKey 19428)"
proof -
  let ?env = "new_york_2023"
  let ?now = "1678663800000 :: int"
  have three: "i = 0 \<or> i = 1 \<or> i = 2" if "0 \<le> i \<and> i < 3" for i :: int
    using that by arith
  have two: "i = 0 \<or> i = 1" if "0 \<le> i \<and> i < 3 - 1" for i :: int
    using that by arith
  have lt: "local_time ?env ?now = 1678649400000"
    by (simp add: local_time_def new_york_2023_def)
  have i0: "instant_of ?env (1678649400000 - 0 * msPerDay) = 1678663800000"
    and i1: "instant_of ?env (1678649400000 - 1 * msPerDay) = 1678581000000"
    and i2: "instant_of ?env (1678649400000 - 2 * msPerDay) = 1678494600000"
    by (simp_all add: instant_of_def new_york_2023_def msPerDay_def)
  have n1: "(1::int) \<le> 3" by simp
  have n2: "inYears ?now" by (simp add: inYears_def)
  have h1: "\<forall>i. 0 \<le> i \<and> i < 3 \<longrightarrow> inYears (instant_of ?env (local_time ?env ?now - i * msPerDay))"
  proof (intro allI impI)
    fix i :: int assume "0 \<le> i \<and> i < 3"
    from three[OF this] i0 i1 i2
    show "inYears (instant_of ?env (local_time ?env ?now - i * msPerDay))"
      by (auto simp: lt inYears_def)
  qed
  have h2: "\<forall>i. 0 \<le> i \<and> i < 3 - 1 \<longrightarrow>
           instant_of ?env (local_time ?env ?now - (i + 1) * msPerDay)
           \<le> instant_of ?env (local_time ?env ?now - i * msPerDay)"
  proof (intro allI impI)
    fix i :: int assume "0 \<le> i \<and> i < 3 - 1"
    from two[OF this] i0 i1 i2
    show "instant_of ?env (local_time ?env ?now - (i + 1) * msPerDay)
           \<le> instant_of ?env (local_time ?env ?now - i * msPerDay)"
      by (auto simp: lt)
  qed
  have h3: "instant_of ?env (local_time ?env ?now) div msPerDay = ?now div msPerDay"
    using i0 by (simp add: lt)
  from C3_lastNDates[OF n1 n2 h1 h2 h3]
  obtain ds where r: "lastNDates ?env ?now 3 = Inr (map DayKey ds)"
    and s: "sorted ds" and t: "todayKey ?env ?now = Inr (DayKey (last ds))"
    by blast
  have e: "lastNDates ?env ?now 3 = Inr (map DayKey [19427, 19428, 19428])"
    by code_simp
  from r e have "map DayKey ds = map DayKey [19427, 19428, 19428]" by simp
  then have "ds = [19427, 19428, 19428]"
    by (auto simp: map_eq_Cons_conv)
  with r s t show ?thesis by simp
qed

theorem C3_lastNDates_counterexample:
  "lastNDates new_york_2023 1700000000000 200000000 = Inl RangeError"
  by code_simp

section \<open>Properties of the number model\<close>

lemma roundTiesToEven_error: "\<bar>of_int (roundTiesToEven z) - z\<bar> \<le> 1 / 2"
proof -
  have "of_int \<lfloor>z\<rfloor> \<le> z" "z < of_int \<lfloor>z\<rfloor> + 1"
    by linarith+
  then show ?thesis
    by (auto simp: roundTiesToEven_def Let_def)
qed

lemma roundTiesToEven_nonneg: "0 \<le> z \<Longrightarrow> 0 \<le> roundTiesToEven z"
  by (auto simp: roundTiesToEven_def Let_def)

lemma exponent_ge1:
  fixes x :: rat
  assumes "1 \<le> x"
  shows "2 powi (bitlen \<lfloor>x\<rfloor> - 1) \<le> x \<and> x < 2 powi (bitlen \<lfloor>x\<rfloor> - 1 + 1)"
proof -
  let ?n = "\<lfloor>x\<rfloor>"
  from assms have n: "0 < ?n" by simp
  from bitlen_bounds[OF n] have lo: "2 ^ nat (bitlen ?n - 1) \<le> ?n" and hi: "?n < 2 ^ nat (bitlen ?n)"
    by simp_all
  have b: "1 \<le> bitlen ?n"
    using n bitlen_eq_zero_iff[of ?n] bitlen_nonneg[of ?n] by linarith
  have "(2::rat) powi (bitlen ?n - 1) = 2 ^ nat (bitlen ?n - 1)"
    using b by (simp add: power_int_def)
  also have "\<dots> = of_int (2 ^ nat (bitlen ?n - 1))" by simp
  also have "\<dots> \<le> of_int ?n" using lo by (simp only: of_int_le_iff)
  also have "\<dots> \<le> x" by simp
  finally have 1: "2 powi (bitlen ?n - 1) \<le> x" .
  have "?n + 1 \<le> 2 ^ nat (bitlen ?n)" using hi by simp
  then have "(of_int (?n + 1) :: rat) \<le> of_int (2 ^ nat (bitlen ?n))"
    by (simp only: of_int_le_iff)
  moreover have "x < of_int (?n + 1)" by simp linarith
  ultimately have "x < of_int (2 ^ nat (bitlen ?n))" by linarith
  also have "\<dots> = 2 powi (bitlen ?n - 1 + 1)"
    using b by (simp add: power_int_def)
  finally show ?thesis using 1 by simp
qed

lemma exponent_bounds:
  fixes x :: rat
  assumes "0 < x"
  shows "2 powi exponent x \<le> x \<and> x < 2 powi (exponent x + 1)"
proof (cases "1 \<le> x")
  case True
  from exponent_ge1[OF True] show ?thesis
    using True by (simp add: exponent_def Let_def)
next
  case False
  let ?y = "1 / x"
  let ?b = "bitlen \<lfloor>?y\<rfloor>"
  from False assms have y: "1 \<le> ?y" by simp
  from exponent_ge1[OF y] have lo: "2 powi (?b - 1) \<le> ?y" and hi: "?y < 2 powi ?b"
    by simp_all
  have p: "0 < (2::rat) powi k" for k by simp
  have "x * 2 powi (?b - 1) \<le> 1"
    using lo assms by (simp add: field_simps)
  then have up: "x \<le> 2 powi (- ?b + 1)"
    using p[of "?b - 1"] by (simp add: power_int_diff field_simps power_int_minus)
  have "1 < x * 2 powi ?b"
    using hi assms by (simp add: field_simps)
  then have dn: "2 powi (- ?b) < x"
    using p[of "?b"] by (simp add: power_int_minus field_simps)
  show ?thesis
  proof (cases "2 powi (- ?b + 1) \<le> x")
    case True
    have "(2::rat) powi (- ?b + 1) < 2 powi (- ?b + 1 + 1)"
      by (rule power_int_strict_increasing) simp_all
    with True up show ?thesis
      using False by (simp add: exponent_def Let_def)
  next
    case F: False
    with dn up show ?thesis
      using False by (simp add: exponent_def Let_def)
  qed
qed

lemma double_zero [simp]: "double 0 = 0"
  by (simp add: double_def)

lemma double_nonneg: "0 \<le> x \<Longrightarrow> 0 \<le> double x"
  by (auto simp: double_def Let_def intro!: mult_nonneg_nonneg roundTiesToEven_nonneg divide_nonneg_pos)

lemma double_error:
  assumes "0 < x"
  shows "\<bar>double x - x\<bar> \<le> x / 2 ^ 53"
proof -
  define u :: rat where "u = 2 powi (exponent x - 52)"
  have u: "0 < u" by (simp add: u_def)
  have d: "double x = of_int (roundTiesToEven (x / u)) * u"
    using assms by (simp add: double_def u_def Let_def)
  have "double x - x = (of_int (roundTiesToEven (x / u)) - x / u) * u"
    using u by (simp add: d left_diff_distrib)
  then have "\<bar>double x - x\<bar> = \<bar>of_int (roundTiesToEven (x / u)) - x / u\<bar> * u"
    using u by (simp add: abs_mult)
  also have "\<dots> \<le> (1 / 2) * u"
    using u roundTiesToEven_error[of "x / u"] by (intro mult_right_mono) simp_all
  also have "\<dots> = 2 powi exponent x / 2 ^ 53"
    by (simp add: u_def power_int_diff)
  also have "\<dots> \<le> x / 2 ^ 53"
    using exponent_bounds[OF assms] by (simp add: divide_right_mono)
  finally show ?thesis .
qed

lemma round_near:
  fixes v y d :: rat
  assumes "of_int k - 1 / 2 + d \<le> v" "v \<le> of_int k + 1 / 2 - d" "\<bar>y - v\<bar> < d"
  shows "round y = k"
proof -
  have "of_int k \<le> y + 1 / 2" "y + 1 / 2 < of_int k + 1"
    using assms by linarith+
  then show ?thesis
    unfolding round_def by (rule floor_unique)
qed


lemma roundTiesToEven_of_int [simp]: "roundTiesToEven (of_int k) = k"
  by (simp add: roundTiesToEven_def)

lemma double_of_int:
  assumes "0 \<le> n" "n < 2 ^ 53"
  shows "double (of_int n) = of_int n"
proof (cases "n = 0")
  case True
  then show ?thesis by simp
next
  case False
  with assms have n: "0 < n" by simp
  define x :: rat where "x = of_int n"
  define e where "e = exponent x"
  have x: "0 < x" using n by (simp add: x_def)
  from exponent_bounds[OF x] have lo: "2 powi e \<le> x" by (simp add: e_def)
  have "x < 2 ^ 53"
  proof -
    have "(of_int n :: rat) < of_int (2 ^ 53)" using assms(2) by (simp only: of_int_less_iff)
    then show ?thesis by (simp add: x_def)
  qed
  then have xu: "x < 2 powi 53" by simp
  have e: "e \<le> 52"
  proof (rule ccontr)
    assume "\<not> e \<le> 52"
    then have "(2::rat) powi 53 \<le> 2 powi e"
      by (intro power_int_increasing) simp_all
    with lo xu show False by linarith
  qed
  define j where "j = nat (52 - e)"
  have u: "(2::rat) powi (e - 52) = 1 / 2 ^ j"
    using e by (simp add: j_def power_int_def field_simps)
  have q: "x / (1 / 2 ^ j) = of_int (n * 2 ^ j)"
    by (simp add: x_def)
  have "double x = of_int (roundTiesToEven (x / (2 powi (e - 52)))) * 2 powi (e - 52)"
    using x by (simp add: double_def Let_def e_def)
  also have "\<dots> = of_int (n * 2 ^ j) * (1 / 2 ^ j)"
    by (simp only: u q roundTiesToEven_of_int)
  also have "\<dots> = x" by (simp add: x_def)
  finally show ?thesis by (simp add: x_def)
qed
lemma Math_round_eq: "Math_round y = round y"
  by (simp add: Math_round_def round_def)

lemma Math_round_unique:
  "of_int k - 1 / 2 \<le> y \<Longrightarrow> y < of_int k + 1 / 2 \<Longrightarrow> Math_round y = k"
  unfolding Math_round_def by (rule floor_unique) linarith+

lemma percentOf_zero [simp]: "percentOf 0 t = 0"
  by (simp add: percentOf_def js_div_def js_mul_def Math_round_unique)

lemma percentOf_error:
  assumes "0 < c" "c \<le> t"
  shows "0 \<le> js_mul (js_div (of_nat c) (of_nat t)) 100"
    and "\<bar>js_mul (js_div (of_nat c) (of_nat t)) 100 - 100 * of_nat c / of_nat t\<bar> < 1 / 2 ^ 45"
proof -
  define x :: rat where "x = of_nat c / of_nat t"
  define y1 where "y1 = double x"
  define y2 where "y2 = double (y1 * 100)"
  have x: "0 < x" "x \<le> 1" using assms by (simp_all add: x_def)
  have e1: "\<bar>y1 - x\<bar> \<le> x / 2 ^ 53"
    unfolding y1_def using x(1) by (rule double_error)
  have e1': "\<bar>y1 - x\<bar> \<le> 1 / 2 ^ 53"
  proof -
    have "x / 2 ^ 53 \<le> 1 / 2 ^ 53" using x(2) by (simp add: divide_right_mono)
    with e1 show ?thesis by linarith
  qed
  have "x / 2 ^ 53 < x" using x(1) by simp
  with e1 have y1: "0 < y1" by linarith
  have y1u: "y1 \<le> 1 + 1 / 2 ^ 53" using e1' x(2) by linarith
  have z: "0 < y1 * 100" using y1 by simp
  have e2: "\<bar>y2 - y1 * 100\<bar> \<le> y1 * 100 / 2 ^ 53"
    unfolding y2_def using z by (rule double_error)
  have "y1 * 100 / 2 ^ 53 \<le> (1 + 1 / 2 ^ 53) * 100 / 2 ^ 53"
    using y1u by (simp add: divide_right_mono)
  with e2 have e2': "\<bar>y2 - y1 * 100\<bar> \<le> (1 + 1 / 2 ^ 53) * 100 / 2 ^ 53" by linarith
  have "y2 - 100 * x = (y2 - y1 * 100) + 100 * (y1 - x)" by simp
  then have "\<bar>y2 - 100 * x\<bar> \<le> \<bar>y2 - y1 * 100\<bar> + \<bar>100 * (y1 - x)\<bar>"
    by (simp only: abs_triangle_ineq)
  also have "\<dots> = \<bar>y2 - y1 * 100\<bar> + 100 * \<bar>y1 - x\<bar>"
    by (subst abs_mult) simp
  also have "\<dots> \<le> (1 + 1 / 2 ^ 53) * 100 / 2 ^ 53 + 100 * (1 / 2 ^ 53)"
    using e2' e1' by (intro add_mono mult_left_mono) simp_all
  also have "\<dots> < 1 / 2 ^ 45" by simp
  finally have "\<bar>y2 - 100 * x\<bar> < 1 / 2 ^ 45" .
  then show "\<bar>js_mul (js_div (of_nat c) (of_nat t)) 100 - 100 * of_nat c / of_nat t\<bar> < 1 / 2 ^ 45"
    by (simp add: js_mul_def js_div_def y2_def y1_def x_def)
  show "0 \<le> js_mul (js_div (of_nat c) (of_nat t)) 100"
    unfolding js_mul_def js_div_def
    by (intro double_nonneg mult_nonneg_nonneg divide_nonneg_nonneg) simp_all
qed

lemma percentOf_range:
  assumes "c \<le> t"
  shows "0 \<le> percentOf c t \<and> percentOf c t \<le> 100"
proof (cases "c = 0")
  case True
  then show ?thesis by simp
next
  case False
  then have c: "0 < c" by simp
  define y where "y = js_mul (js_div (of_nat c) (of_nat t)) 100"
  have y0: "0 \<le> y" and err: "\<bar>y - 100 * of_nat c / of_nat t\<bar> < 1 / 2 ^ 45"
    unfolding y_def using percentOf_error[OF c assms] by simp_all
  have "100 * (of_nat c :: rat) / of_nat t \<le> 100"
    using assms c by (simp add: field_simps)
  moreover have "(1::rat) / 2 ^ 45 < 1 / 2" by simp
  ultimately have "y < 100 + 1 / 2" using err by linarith
  then have "y + 1 / 2 < of_int 101" by simp
  then have "\<lfloor>y + 1 / 2\<rfloor> < 101" by (simp only: floor_less_iff)
  moreover have "0 \<le> \<lfloor>y + 1 / 2\<rfloor>" using y0 by simp
  ultimately show ?thesis by (simp add: percentOf_def Math_round_def y_def[symmetric])
qed

lemma percentOf_exact:
  assumes "c \<le> t" "0 < t" "t < 2 ^ 32"
    and nh: "frac (100 * of_nat c / of_nat t :: rat) \<noteq> 1 / 2"
  shows "percentOf c t = round (100 * of_nat c / of_nat t :: rat)"
proof (cases "c = 0")
  case True
  then show ?thesis by simp
next
  case False
  then have c: "0 < c" by simp
  define v :: rat where "v = 100 * of_nat c / of_nat t"
  define k where "k = round v"
  define y where "y = js_mul (js_div (of_nat c) (of_nat t)) 100"
  define d :: rat where "d = 1 / (2 * of_nat t)"
  have tq: "0 < (of_nat t :: rat)" using assms by simp
  have err: "\<bar>y - v\<bar> < 1 / 2 ^ 45"
    unfolding y_def v_def using percentOf_error[OF c assms(1)] by simp
  have "(of_nat t :: rat) < 2 ^ 32"
    using assms(3) by (metis of_nat_less_iff of_nat_numeral of_nat_power)
  then have "2 * (of_nat t :: rat) < 2 ^ 45" by simp
  then have "1 / (2 ^ 45 :: rat) < d"
    unfolding d_def using tq by (intro divide_strict_left_mono) simp_all
  with err have errd: "\<bar>y - v\<bar> < d" by linarith
  have k1: "of_int k - 1 / 2 \<le> v" and k2: "v < of_int k + 1 / 2"
    unfolding k_def round_def by linarith+
  have vk: "v \<noteq> of_int k - 1 / 2"
  proof
    assume "v = of_int k - 1 / 2"
    then have "v = of_int (k - 1) + 1 / 2" by simp
    then have "frac v = frac (1 / 2 :: rat)"
      by (simp only: frac_add_of_int_left)
    moreover have "frac (1 / 2 :: rat) = 1 / 2" by (simp add: frac_eq)
    ultimately show False using nh by (simp add: v_def)
  qed
  have tv: "v * (2 * of_nat t) = of_int (200 * int c)"
    using tq by (simp add: v_def)
  have tv2: "v * (of_nat t * 2) = of_nat c * 200"
    using tq by (simp add: v_def)
  have "of_int k - 1 / 2 < v" using k1 vk by simp
  then have "(of_int k - 1 / 2) * (2 * of_nat t) < v * (2 * of_nat t)"
    using tq by (intro mult_strict_right_mono) simp_all
  moreover have "(of_int k - 1 / 2) * (2 * of_nat t) = (of_int ((2 * k - 1) * int t) :: rat)"
    by (simp add: algebra_simps)
  ultimately have "(of_int ((2 * k - 1) * int t) :: rat) < of_int (200 * int c)"
    by (simp only: tv)
  then have "(2 * k - 1) * int t < 200 * int c" by (simp only: of_int_less_iff)
  then have "(2 * k - 1) * int t + 1 \<le> 200 * int c" by simp
  then have "(of_int ((2 * k - 1) * int t + 1) :: rat) \<le> of_int (200 * int c)"
    by (simp only: of_int_le_iff)
  then have "(of_int k - 1 / 2 + d) * (2 * of_nat t) \<le> v * (2 * of_nat t)"
    using tq by (simp add: tv2 d_def algebra_simps)
  then have lo: "of_int k - 1 / 2 + d \<le> v"
    using tq by (simp only: mult_le_cancel_right)
  have "v * (2 * of_nat t) < (of_int k + 1 / 2) * (2 * of_nat t)"
    using k2 tq by (intro mult_strict_right_mono) simp_all
  moreover have "(of_int k + 1 / 2) * (2 * of_nat t) = (of_int ((2 * k + 1) * int t) :: rat)"
    by (simp add: algebra_simps)
  ultimately have "(of_int (200 * int c) :: rat) < of_int ((2 * k + 1) * int t)"
    by (simp only: tv)
  then have "200 * int c < (2 * k + 1) * int t" by (simp only: of_int_less_iff)
  then have "200 * int c + 1 \<le> (2 * k + 1) * int t" by simp
  then have "(of_int (200 * int c + 1) :: rat) \<le> of_int ((2 * k + 1) * int t)"
    by (simp only: of_int_le_iff)
  then have "v * (2 * of_nat t) \<le> (of_int k + 1 / 2 - d) * (2 * of_nat t)"
    using tq by (simp add: tv2 d_def algebra_simps)
  then have hi: "v \<le> of_int k + 1 / 2 - d"
    using tq by (simp only: mult_le_cancel_right)
  have "round y = k" using lo hi errd by (rule round_near)
  then show ?thesis
    by (simp add: percentOf_def Math_round_eq y_def k_def v_def)
qed

lemma double_one: "double 1 = 1"
  by code_simp

lemma double_hundred: "double 100 = 100"
  by code_simp

lemma percentOf_full: "0 < t \<Longrightarrow> percentOf t t = 100"
  by (simp add: percentOf_def js_div_def js_mul_def double_one double_hundred Math_round_unique)



subsection \<open>The completion calculator\<close>

lemma percentForDay_Some:
  "percentForDay (Some M) H =
     Inr (percentOf (length (filter (\<lambda>h. js_truthy_get M (hid h)) H)) (max (length H) 1))"
  by (cases H) (simp_all add: percentForDay_def max_def)

lemma js_truthy_get_own:
  "k \<notin> set Object_prototype_keys \<Longrightarrow> js_truthy_get M k = (M k = Some True)"
  by (auto simp: js_truthy_get_def split: option.splits)

lemma completed_spec:
  assumes "\<forall>h\<in>set H. hid h \<notin> set Object_prototype_keys"
  shows "length (filter (\<lambda>h. js_truthy_get M (hid h)) H) = spec_completed M H"
proof -
  have "filter (\<lambda>h. js_truthy_get M (hid h)) H = filter (\<lambda>h. M (hid h) = Some True) H"
    using assms by (intro filter_cong) (simp_all add: js_truthy_get_own)
  then show ?thesis by (simp add: spec_completed_def)
qed

lemma spec_completed_le: "spec_completed M H \<le> max (length H) 1"
  by (simp add: spec_completed_def le_max_iff_disj)

lemma percentForDay_range:
  "percentForDay (Some M) H = Inr p \<Longrightarrow> 0 \<le> p \<and> p \<le> 100"
proof -
  assume "percentForDay (Some M) H = Inr p"
  then have p: "p = percentOf (length (filter (\<lambda>h. js_truthy_get M (hid h)) H)) (max (length H) 1)"
    by (simp add: percentForDay_Some)
  have "length (filter (\<lambda>h. js_truthy_get M (hid h)) H) \<le> max (length H) 1"
    by (simp add: le_max_iff_disj)
  then show ?thesis unfolding p by (rule percentOf_range)
qed


lemma percentOf_tie:
  assumes "c \<le> t" and fr: "frac (100 * of_nat c / of_nat t :: rat) = 1 / 2"
    and ge: "100 * of_nat c / of_nat t \<le> js_mul (js_div (of_nat c) (of_nat t)) 100"
  shows "percentOf c t = round (100 * of_nat c / of_nat t :: rat)"
proof -
  define r :: rat where "r = 100 * of_nat c / of_nat t"
  define y where "y = js_mul (js_div (of_nat c) (of_nat t)) 100"
  define k where "k = \<lfloor>r\<rfloor>"
  have c: "0 < c"
  proof (rule ccontr)
    assume "\<not> 0 < c"
    then have "frac (100 * of_nat c / of_nat t :: rat) = 0" by simp
    with fr show False by simp
  qed
  have r: "r = of_int k + 1 / 2"
    using fr by (simp add: frac_def r_def[symmetric] k_def)
  have err: "\<bar>y - r\<bar> < 1 / 2 ^ 45"
    unfolding y_def r_def using percentOf_error(2)[OF c assms(1)] .
  have "(1::rat) / 2 ^ 45 < 1" by simp
  with err have up: "y < r + 1" by linarith
  have lo: "r \<le> y" using ge by (simp add: r_def y_def)
  have "Math_round y = k + 1"
    using lo up by (intro Math_round_unique) (simp_all add: r)
  moreover have "round r = k + 1"
    by (rule round_unique) (simp_all add: r)
  ultimately show ?thesis
    by (simp add: percentOf_def y_def r_def)
qed

text \<open>
  C1 (amended): for every habit list \<open>H\<close> and day map \<open>M\<close>, \<open>percentForDay(M, H)\<close> is an
  integer in \<open>[0, 100]\<close>, and 0 when \<open>H\<close> is empty.  When no habit id is the name of a
  property inherited from \<open>Object.prototype\<close>, it is 0 for the empty map, and it equals
  \<open>round(100 * completed / max(|H|, 1))\<close> (\<open>H\<close> an array of fewer than \<open>2 ^ 32\<close>
  elements), except where that quotient lies exactly half-way between two integers and
  the double-precision product \<open>(completed / total) * 100\<close> falls below it.
\<close>

theorem C1_percentForDay:
  "\<exists>p. percentForDay (Some M) H = Inr p \<and> 0 \<le> p \<and> p \<le> 100 \<and> (H = [] \<longrightarrow> p = 0)
     \<and> ((\<forall>h\<in>set H. hid h \<notin> set Object_prototype_keys) \<longrightarrow>
           (M = Map.empty \<longrightarrow> p = 0)
         \<and> (length H < 2 ^ 32
            \<and> \<not> (frac (spec_ratio M H) = 1 / 2
                 \<and> js_mul (js_div (of_nat (spec_completed M H)) (of_nat (max (length H) 1))) 100
                   < spec_ratio M H)
            \<longrightarrow> p = spec_percent M H))"
proof -
  define c where "c = length (filter (\<lambda>h. js_truthy_get M (hid h)) H)"
  define p where "p = percentOf c (max (length H) 1)"
  have eq: "percentForDay (Some M) H = Inr p"
    by (simp add: percentForDay_Some p_def c_def)
  have rng: "0 \<le> p \<and> p \<le> 100"
    using eq by (rule percentForDay_range)
  have nil: "H = [] \<longrightarrow> p = 0"
    by (simp add: p_def c_def)
  have own: "(M = Map.empty \<longrightarrow> p = 0)
        \<and> (length H < 2 ^ 32
            \<and> \<not> (frac (spec_ratio M H) = 1 / 2
                 \<and> js_mul (js_div (of_nat (spec_completed M H)) (of_nat (max (length H) 1))) 100
                   < spec_ratio M H)
            \<longrightarrow> p = spec_percent M H)"
    if inh: "\<forall>h\<in>set H. hid h \<notin> set Object_prototype_keys"
  proof -
    have c: "c = spec_completed M H"
      unfolding c_def using inh by (rule completed_spec)
    have e: "p = 0" if "M = Map.empty"
      using that by (simp add: p_def c spec_completed_def)
    have x: "p = spec_percent M H"
      if l: "length H < 2 ^ 32"
        and t: "\<not> (frac (spec_ratio M H) = 1 / 2
                 \<and> js_mul (js_div (of_nat (spec_completed M H)) (of_nat (max (length H) 1))) 100
                   < spec_ratio M H)"
    proof (cases "frac (spec_ratio M H) = 1 / 2")
      case False
      have "max (length H) 1 < 2 ^ 32" using l by simp
      then have "percentOf (spec_completed M H) (max (length H) 1)
                 = round (100 * of_nat (spec_completed M H) / of_nat (max (length H) 1) :: rat)"
        using False by (intro percentOf_exact spec_completed_le) (simp_all add: spec_ratio_def)
      then show ?thesis by (simp add: p_def c spec_percent_def spec_ratio_def)
    next
      case True
      with t have "spec_ratio M H
          \<le> js_mul (js_div (of_nat (spec_completed M H)) (of_nat (max (length H) 1))) 100"
        by simp
      then have "percentOf (spec_completed M H) (max (length H) 1)
                 = round (100 * of_nat (spec_completed M H) / of_nat (max (length H) 1) :: rat)"
        using True by (intro percentOf_tie spec_completed_le) (simp_all add: spec_ratio_def)
      then show ?thesis by (simp add: p_def c spec_percent_def spec_ratio_def)
    qed
    from e x show ?thesis by blast
  qed
  from eq rng nil own show ?thesis by blast
qed

theorem C1_percentForDay_witness:
  "set (map hid [\<lparr>hid = ''wake'', label = ''Wake up early''\<rparr>, \<lparr>hid = ''exercise'', label = ''Exercise''\<rparr>,
                 \<lparr>hid = ''read'', label = ''Reading''\<rparr>]) \<inter> set Object_prototype_keys = {}
   \<and> frac (spec_ratio [''wake'' \<mapsto> True, ''read'' \<mapsto> False]
        [\<lparr>hid = ''wake'', label = ''Wake up early''\<rparr>, \<lparr>hid = ''exercise'', label = ''Exercise''\<rparr>,
         \<lparr>hid = ''read'', label = ''Reading''\<rparr>]) \<noteq> 1 / 2
   \<and> percentForDay (Some [''wake'' \<mapsto> True, ''read'' \<mapsto> False])
        [\<lparr>hid = ''wake'', label = ''Wake up early''\<rparr>, \<lparr>hid = ''exercise'', label = ''Exercise''\<rparr>,
         \<lparr>hid = ''read'', label = ''Reading''\<rparr>] = Inr 33
   \<and> percentForDay (Some Map.empty)
        [\<lparr>hid = ''wake'', label = ''Wake up early''\<rparr>, \<lparr>hid = ''exercise'', label = ''Exercise''\<rparr>,
         \<lparr>hid = ''read'', label = ''Reading''\<rparr>] = Inr 0
   \<and> percentForDay (Some [''wake'' \<mapsto> True, ''read'' \<mapsto> False]) [] = Inr 0
   \<and> frac (spec_ratio [''wake'' \<mapsto> True]
        (map (\<lambda>s. \<lparr>hid = s, label = s\<rparr>)
           [''wake'', ''exercise'', ''study'', ''problems'', ''water'', ''meditate'', ''read'', ''walk''])) = 1 / 2
   \<and> percentForDay (Some [''wake'' \<mapsto> True])
        (map (\<lambda>s. \<lparr>hid = s, label = s\<rparr>)
           [''wake'', ''exercise'', ''study'', ''problems'', ''water'', ''meditate'', ''read'', ''walk'']) = Inr 13"
proof -
  let ?H = "[\<lparr>hid = ''wake'', label = ''Wake up early''\<rparr>, \<lparr>hid = ''exercise'', label = ''Exercise''\<rparr>,
             \<lparr>hid = ''read'', label = ''Reading''\<rparr>]"
  let ?M = "[''wake'' \<mapsto> True, ''read'' \<mapsto> False]"
  let ?E = "map (\<lambda>s. \<lparr>hid = s, label = s\<rparr>)
           [''wake'', ''exercise'', ''study'', ''problems'', ''water'', ''meditate'', ''read'', ''walk'']"
  let ?W = "[''wake'' \<mapsto> True]"
  have inh: "\<forall>h\<in>set ?H. hid h \<notin> set Object_prototype_keys"
    by (simp add: Object_prototype_keys_def)
  have len: "length ?H < 2 ^ 32" by simp
  have ratio: "spec_ratio ?M ?H = 100 / 3"
    by (simp add: spec_ratio_def spec_completed_def)
  have fl: "\<lfloor>100 / 3 :: rat\<rfloor> = 33"
    by (rule floor_unique) simp_all
  have fr: "frac (spec_ratio ?M ?H) \<noteq> 1 / 2"
    by (simp add: ratio frac_def fl)
  have rd: "spec_percent ?M ?H = 33"
    unfolding spec_percent_def ratio by (rule round_unique) simp_all
  from C1_percentForDay[of ?M ?H] inh len fr rd
  have 1: "percentForDay (Some ?M) ?H = Inr 33" by auto
  from C1_percentForDay[of Map.empty ?H] inh
  have 2: "percentForDay (Some Map.empty) ?H = Inr 0" by auto
  from C1_percentForDay[of ?M "[]"]
  have 3: "percentForDay (Some ?M) [] = Inr 0" by auto
  have 0: "set (map hid ?H) \<inter> set Object_prototype_keys = {}"
    by (simp add: Object_prototype_keys_def)
  have inhE: "\<forall>h\<in>set ?E. hid h \<notin> set Object_prototype_keys"
    by (simp add: Object_prototype_keys_def)
  have lenE: "length ?E < 2 ^ 32" by simp
  have cE: "spec_completed ?W ?E = 1"
    by code_simp
  have ratioE: "spec_ratio ?W ?E = 25 / 2"
    unfolding spec_ratio_def cE by simp
  have flE: "\<lfloor>25 / 2 :: rat\<rfloor> = 12"
    by (rule floor_unique) simp_all
  have frE: "frac (spec_ratio ?W ?E) = 1 / 2"
    unfolding ratioE by (simp add: frac_def flE)
  have prod: "js_mul (js_div 1 8) 100 = 25 / 2"
    by code_simp
  have geE: "\<not> (frac (spec_ratio ?W ?E) = 1 / 2
       \<and> js_mul (js_div (of_nat (spec_completed ?W ?E)) (of_nat (max (length ?E) 1))) 100
         < spec_ratio ?W ?E)"
    unfolding cE ratioE by (simp add: prod)
  have rdE: "spec_percent ?W ?E = 13"
    unfolding spec_percent_def ratioE by (rule round_unique) simp_all
  from C1_percentForDay[of ?W ?E] inhE lenE geE rdE
  have 4: "percentForDay (Some ?W) ?E = Inr 13" by auto
  from 0 fr 1 2 3 frE 4 show ?thesis by blast
qed

theorem C1_percentForDay_counterexample:
  "percentForDay (Some day23) habits40 = Inr 57
   \<and> spec_percent day23 habits40 = 58
   \<and> percentForDay (Some Map.empty) [\<lparr>hid = ''constructor'', label = ''constructor''\<rparr>] = Inr 100
   \<and> spec_percent Map.empty [\<lparr>hid = ''constructor'', label = ''constructor''\<rparr>] = 0"
proof (intro conjI)
  show "percentForDay (Some day23) habits40 = Inr 57" by code_simp
  show "spec_percent day23 habits40 = 58" by code_simp
  show "percentForDay (Some Map.empty) [\<lparr>hid = ''constructor'', label = ''constructor''\<rparr>] = Inr 100"
    by code_simp
  show "spec_percent Map.empty [\<lparr>hid = ''constructor'', label = ''constructor''\<rparr>] = 0"
    by code_simp
qed

section \<open>Properties of the streak engine\<close>

lemma percentForDay_Some_Inr: "\<exists>p. percentForDay (Some M) H = Inr p"
  by (simp add: percentForDay_Some)


lemma calculateStreak_loop_stop:
  assumes "isoDateKey env cursor = Inr key" and "\<not> perfectDay history habitList key"
  shows "calculateStreak_loop env history habitList cursor streak = Some (Inr streak)"
proof (cases "history key")
  case None
  with assms(1) show ?thesis by (subst calculateStreak_loop.simps) simp
next
  case (Some rec)
  obtain p where p: "percentForDay (Some (habitsOrEmpty rec)) habitList = Inr p"
    using percentForDay_Some_Inr by blast
  with assms(2) Some have "p \<noteq> 100" by (simp add: perfectDay_def habitsOrEmpty_def)
  with assms(1) Some p show ?thesis by (subst calculateStreak_loop.simps) simp
qed

lemma calculateStreak_loop_step:
  assumes "isoDateKey env cursor = Inr key" and "perfectDay history habitList key"
  shows "calculateStreak_loop env history habitList cursor streak
         = calculateStreak_loop env history habitList (setDateBack env cursor 1) (streak + 1)"
proof -
  from assms(2) obtain rec where "history key = Some rec"
    and "percentForDay (Some (habitsOrEmpty rec)) habitList = Inr 100"
    by (auto simp: perfectDay_def habitsOrEmpty_def split: option.splits)
  with assms(1) show ?thesis by (subst calculateStreak_loop.simps) simp
qed

lemma calculateStreak_loop_exact:
  assumes w: "walks_days env now k"
    and p: "\<forall>i<k. perfectDay history habitList (DayKey (now div msPerDay - int i))"
    and np: "\<not> perfectDay history habitList (DayKey (now div msPerDay - int k))"
  shows "j \<le> k \<Longrightarrow> inYears tv \<Longrightarrow> tv div msPerDay = now div msPerDay - int j \<Longrightarrow>
         (j < k \<longrightarrow> local_time env tv = local_time env now - int j * msPerDay) \<Longrightarrow>
         calculateStreak_loop env history habitList (Some tv) streak = Some (Inr (streak + (k - j)))"
proof (induction "k - j" arbitrary: j tv streak)
  case 0
  then have j: "j = k" by simp
  have key: "isoDateKey env (Some tv) = Inr (DayKey (now div msPerDay - int k))"
    using "0.prems"(2,3) j by (simp add: isoDateKey_inYears)
  show ?case
    using calculateStreak_loop_stop[OF key np] j by simp
next
  case (Suc d)
  then have j: "j < k" and d: "d = k - Suc j" by simp_all
  define u where "u = instant_of env (local_time env now - int (Suc j) * msPerDay)"
  have m: "Suc j \<in> {1..k}" using j by simp
  from w have "\<forall>j\<in>{1..k}.
        (let x = local_time env now - int j * msPerDay; u = instant_of env x
         in inYears u \<and> u div msPerDay = now div msPerDay - int j
            \<and> (j < k \<longrightarrow> local_time env u = x))"
    unfolding walks_days_def .
  from bspec[OF this m]
  have wj: "inYears u" "u div msPerDay = now div msPerDay - int (Suc j)"
    "Suc j < k \<longrightarrow> local_time env u = local_time env now - int (Suc j) * msPerDay"
    unfolding u_def Let_def by blast+
  have lt: "local_time env tv = local_time env now - int j * msPerDay"
    using Suc.prems(4) j by simp
  have x: "local_time env tv - 1 * msPerDay = local_time env now - int (Suc j) * msPerDay"
    unfolding lt by (simp add: algebra_simps)
  have "wallClockBack env tv 1 = u"
    by (simp only: wallClockBack_eq u_def x)
  then have bk: "setDateBack env (Some tv) 1 = Some u"
    using wj(1) by (simp add: setDateBack_def timeClip_inYears)
  have key: "isoDateKey env (Some tv) = Inr (DayKey (now div msPerDay - int j))"
    using Suc.prems(2,3) by (simp add: isoDateKey_inYears)
  have perf: "perfectDay history habitList (DayKey (now div msPerDay - int j))"
    using p j by simp
  have "calculateStreak_loop env history habitList (Some tv) streak
        = calculateStreak_loop env history habitList (Some u) (streak + 1)"
    using calculateStreak_loop_step[OF key perf] by (simp add: bk)
  also have "\<dots> = Some (Inr (streak + 1 + (k - Suc j)))"
    using j wj by (intro Suc.hyps(1) d) simp_all
  finally show ?case using j by simp
qed

lemma calculateStreak_exact:
  assumes "inYears now" and "walks_days env now k"
    and "\<forall>i<k. perfectDay history habitList (DayKey (now div msPerDay - int i))"
    and "\<not> perfectDay history habitList (DayKey (now div msPerDay - int k))"
  shows "calculateStreak env now history habitList = Some (Inr k)"
  using calculateStreak_loop_exact[OF assms(2,3,4), of 0 now 0] assms(1)
  by (simp add: calculateStreak_def timeClip_inYears)


lemma walks_days_0: "walks_days env now 0"
  by (simp add: walks_days_def)







text \<open>
  C2 (amended): \<open>calculateStreak\<close> takes as today the UTC day of the clock, walks backward
  and stops at the first date it reads that has no history entry or whose
  \<open>percentForDay\<close> is not 100.  When the clock is in the years 0000 to 9999 and the \<open>k\<close>
  days walked are regular (for each \<open>j\<close> from 1 to \<open>k\<close>, the local time of the clock
  moved \<open>j\<close> days back is an instant of the UTC day \<open>j\<close> days before today, and before
  the last of them it is read back as that local time), then for every history with
  exactly the last \<open>k\<close> consecutive days, today included, at 100% and the day before
  them absent or not at 100%, it returns exactly \<open>k\<close>; it returns 0 when today's
  entry is absent or not at 100%.
\<close>

theorem C2_calculateStreak:
  assumes "inYears now"
  shows "todayKey env now = Inr (DayKey (now div msPerDay))
    \<and> (walks_days env now k
        \<and> (\<forall>i<k. perfectDay history habitList (DayKey (now div msPerDay - int i)))
        \<and> \<not> perfectDay history habitList (DayKey (now div msPerDay - int k))
        \<longrightarrow> calculateStreak env now history habitList = Some (Inr k))
    \<and> (\<not> perfectDay history habitList (DayKey (now div msPerDay))
        \<longrightarrow> calculateStreak env now history habitList = Some (Inr 0))"
proof (intro conjI impI)
  show "todayKey env now = Inr (DayKey (now div msPerDay))"
    using assms by (simp add: todayKey_def timeClip_inYears isoDateKey_inYears)
next
  assume "walks_days env now k
        \<and> (\<forall>i<k. perfectDay history habitList (DayKey (now div msPerDay - int i)))
        \<and> \<not> perfectDay history habitList (DayKey (now div msPerDay - int k))"
  then show "calculateStreak env now history habitList = Some (Inr k)"
    using assms by (intro calculateStreak_exact) simp_all
next
  assume "\<not> perfectDay history habitList (DayKey (now div msPerDay))"
  then show "calculateStreak env now history habitList = Some (Inr 0)"
    using assms walks_days_0[of env now] by (intro calculateStreak_exact) simp_all
qed

lemma perfect_keys:
  "perfectDay (map_of (map (\<lambda>d. (DayKey d, \<lparr>habits = Some [''wake'' \<mapsto> True]\<rparr>)) ds))
     [\<lparr>hid = ''wake'', label = ''Wake up early''\<rparr>] key \<longleftrightarrow> key \<in> DayKey ` set ds"
proof -
  have "map_of (map (\<lambda>d. (DayKey d, \<lparr>habits = Some [''wake'' \<mapsto> True]\<rparr>)) ds) key
        = (if key \<in> DayKey ` set ds then Some \<lparr>habits = Some [''wake'' \<mapsto> True]\<rparr> else None)"
    by (induction ds) auto
  then show ?thesis
    by (simp add: perfectDay_def percentForDay_Some js_truthy_get_def percentOf_full)
qed

theorem C2_calculateStreak_witness:
  "inYears 1699290000000
   \<and> walks_days new_york_2023 1699290000000 2
   \<and> todayKey new_york_2023 1699290000000 = Inr (DayKey 19667)
   \<and> perfectDay (map_of (map (\<lambda>d. (DayKey d, \<lparr>habits = Some [''wake'' \<mapsto> True]\<rparr>)) [19667, 19666]))
       [\<lparr>hid = ''wake'', label = ''Wake up early''\<rparr>] (DayKey 19667)
   \<and> perfectDay (map_of (map (\<lambda>d. (DayKey d, \<lparr>habits = Some [''wake'' \<mapsto> True]\<rparr>)) [19667, 19666]))
       [\<lparr>hid = ''wake'', label = ''Wake up early''\<rparr>] (DayKey 19666)
   \<and> \<not> perfectDay (map_of (map (\<lambda>d. (DayKey d, \<lparr>habits = Some [''wake'' \<mapsto> True]\<rparr>)) [19667, 19666]))
       [\<lparr>hid = ''wake'', label = ''Wake up early''\<rparr>] (DayKey 19665)
   \<and> calculateStreak new_york_2023 1699290000000
       (map_of (map (\<lambda>d. (DayKey d, \<lparr>habits = Some [''wake'' \<mapsto> True]\<rparr>)) [19667, 19666]))
       [\<lparr>hid = ''wake'', label = ''Wake up early''\<rparr>] = Some (Inr 2)
   \<and> \<not> perfectDay (map_of (map (\<lambda>d. (DayKey d, \<lparr>habits = Some [''wake'' \<mapsto> True]\<rparr>)) [19667, 19666]))
       [\<lparr>hid = ''wake'', label = ''Wake up early''\<rparr>] (DayKey 18518)
   \<and> calculateStreak new_york_2023 1600000000000
       (map_of (map (\<lambda>d. (DayKey d, \<lparr>habits = Some [''wake'' \<mapsto> True]\<rparr>)) [19667, 19666]))
       [\<lparr>hid = ''wake'', label = ''Wake up early''\<rparr>] = Some (Inr 0)"
proof -
  let ?h = "map_of (map (\<lambda>d. (DayKey d, \<lparr>habits = Some [''wake'' \<mapsto> True]\<rparr>)) [19667, 19666])"
  let ?l = "[\<lparr>hid = ''wake'', label = ''Wake up early''\<rparr>]"
  let ?now = "1699290000000 :: int"
  have y: "inYears ?now" "inYears 1600000000000" by (simp_all add: inYears_def)
  have d: "?now div msPerDay = 19667" "1600000000000 div msPerDay = 18518"
    by (simp_all add: msPerDay_def)
  have two: "j = 1 \<or> j = 2" if "j \<in> {1..2}" for j :: nat
    using that by auto
  have w: "walks_days new_york_2023 ?now 2"
    unfolding walks_days_def
  proof (intro ballI)
    fix j :: nat assume "j \<in> {1..2}"
    from two[OF this]
    show "let x = local_time new_york_2023 ?now - int j * msPerDay;
              u = instant_of new_york_2023 x
          in inYears u \<and> u div msPerDay = ?now div msPerDay - int j
             \<and> (j < 2 \<longrightarrow> local_time new_york_2023 u = x)"
      by (auto simp: Let_def local_time_def instant_of_def new_york_2023_def msPerDay_def
          inYears_def)
  qed
  have a: "\<forall>i<2. perfectDay ?h ?l (DayKey (?now div msPerDay - int i))"
    unfolding perfect_keys d by (auto simp: less_2_cases_iff)
  have b: "\<not> perfectDay ?h ?l (DayKey (?now div msPerDay - int 2))"
    unfolding perfect_keys d by simp
  have c: "\<not> perfectDay ?h ?l (DayKey (1600000000000 div msPerDay))"
    unfolding perfect_keys d by simp
  from C2_calculateStreak[OF y(1), of new_york_2023 2 ?h ?l] w a b
  have 1: "calculateStreak new_york_2023 ?now ?h ?l = Some (Inr 2)"
    and t: "todayKey new_york_2023 ?now = Inr (DayKey (?now div msPerDay))" 
    by blast+
  from C2_calculateStreak[OF y(2), of new_york_2023 0 ?h ?l] c
  have 2: "calculateStreak new_york_2023 1600000000000 ?h ?l = Some (Inr 0)" by blast
  have p: "perfectDay ?h ?l (DayKey 19667)" "perfectDay ?h ?l (DayKey 19666)"
    "\<not> perfectDay ?h ?l (DayKey 19665)" "\<not> perfectDay ?h ?l (DayKey 18518)"
    unfolding perfect_keys by simp_all
  from y(1) w t p 1 2 show ?thesis unfolding d by blast
qed

theorem C2_calculateStreak_counterexample:
  "todayKey new_york_2023 1699230600000 = Inr (DayKey 19667)
   \<and> perfectDay (map_of (map (\<lambda>d. (DayKey d, \<lparr>habits = Some [''wake'' \<mapsto> True]\<rparr>)) [19667, 19666, 19665]))
       [\<lparr>hid = ''wake'', label = ''Wake up early''\<rparr>] (DayKey 19667)
   \<and> perfectDay (map_of (map (\<lambda>d. (DayKey d, \<lparr>habits = Some [''wake'' \<mapsto> True]\<rparr>)) [19667, 19666, 19665]))
       [\<lparr>hid = ''wake'', label = ''Wake up early''\<rparr>] (DayKey 19666)
   \<and> perfectDay (map_of (map (\<lambda>d. (DayKey d, \<lparr>habits = Some [''wake'' \<mapsto> True]\<rparr>)) [19667, 19666, 19665]))
       [\<lparr>hid = ''wake'', label = ''Wake up early''\<rparr>] (DayKey 19665)
   \<and> \<not> perfectDay (map_of (map (\<lambda>d. (DayKey d, \<lparr>habits = Some [''wake'' \<mapsto> True]\<rparr>)) [19667, 19666, 19665]))
       [\<lparr>hid = ''wake'', label = ''Wake up early''\<rparr>] (DayKey 19664)
   \<and> calculateStreak new_york_2023 1699230600000
       (map_of (map (\<lambda>d. (DayKey d, \<lparr>habits = Some [''wake'' \<mapsto> True]\<rparr>)) [19667, 19666, 19665]))
       [\<lparr>hid = ''wake'', label = ''Wake up early''\<rparr>] = Some (Inr 2)"
proof -
  let ?h = "map_of (map (\<lambda>d. (DayKey d, \<lparr>habits = Some [''wake'' \<mapsto> True]\<rparr>)) [19667, 19666, 19665])"
  let ?l = "[\<lparr>hid = ''wake'', label = ''Wake up early''\<rparr>]"
  have t: "todayKey new_york_2023 1699230600000 = Inr (DayKey 19667)"
    by (simp add: todayKey_def timeClip_def maxTime_def isoDateKey_def inYears_def msPerDay_def)
  have p: "perfectDay ?h ?l (DayKey 19667)" "perfectDay ?h ?l (DayKey 19666)"
    "perfectDay ?h ?l (DayKey 19665)" "\<not> perfectDay ?h ?l (DayKey 19664)"
    unfolding perfect_keys by simp_all
  have k0: "isoDateKey new_york_2023 (Some 1699230600000) = Inr (DayKey 19667)"
    and k1: "isoDateKey new_york_2023 (Some 1699140600000) = Inr (DayKey 19665)"
    and k2: "isoDateKey new_york_2023 (Some 1699054200000) = Inr (DayKey 19664)"
    by (simp_all add: isoDateKey_def inYears_def msPerDay_def)
  have s0: "setDateBack new_york_2023 (Some 1699230600000) 1 = Some 1699140600000"
    and s1: "setDateBack new_york_2023 (Some 1699140600000) 1 = Some 1699054200000"
    by (simp_all add: setDateBack_def wallClockBack_def timeClip_def maxTime_def
        new_york_2023_def msPerDay_def Let_def)
  have e0: "calculateStreak new_york_2023 1699230600000 ?h ?l
        = calculateStreak_loop new_york_2023 ?h ?l (Some 1699230600000) 0"
    by (simp add: calculateStreak_def timeClip_def maxTime_def)
  have e1: "calculateStreak_loop new_york_2023 ?h ?l (Some 1699230600000) 0
        = calculateStreak_loop new_york_2023 ?h ?l (Some 1699140600000) (0 + 1)"
    using calculateStreak_loop_step[OF k0 p(1), of 0] unfolding s0 .
  have e2: "calculateStreak_loop new_york_2023 ?h ?l (Some 1699140600000) (0 + 1)
        = calculateStreak_loop new_york_2023 ?h ?l (Some 1699054200000) (0 + 1 + 1)"
    using calculateStreak_loop_step[OF k1 p(3), of "0 + 1"] unfolding s1 .
  have e3: "calculateStreak_loop new_york_2023 ?h ?l (Some 1699054200000) (0 + 1 + 1)
        = Some (Inr (0 + 1 + 1))"
    using calculateStreak_loop_stop[OF k2 p(4), of "0 + 1 + 1"] .
  have "calculateStreak new_york_2023 1699230600000 ?h ?l = Some (Inr (0 + 1 + 1))"
    by (simp only: e0 e1 e2 e3)
  then have "calculateStreak new_york_2023 1699230600000 ?h ?l = Some (Inr 2)"
    by simp
  then show ?thesis using t p by blast
qed




section \<open>Properties of the weekly aggregation\<close>

lemma map_result_Inr:
  "\<forall>x\<in>set xs. \<exists>y. f x = Inr y \<Longrightarrow> \<exists>ys. map_result f xs = Inr ys \<and> map f xs = map Inr ys"
proof (induction xs)
  case Nil
  then show ?case by simp
next
  case (Cons x xs)
  then obtain y ys where "f x = Inr y" "map_result f xs = Inr ys" "map f xs = map Inr ys"
    by auto
  then show ?case by simp
qed


lemma sum_list_upper: "\<forall>p\<in>set ps. p \<le> (b::int) \<Longrightarrow> sum_list ps \<le> b * int (length ps)"
  by (induction ps) (auto simp: algebra_simps)

lemma foldl_js_add:
  "\<forall>p\<in>set ps. 0 \<le> p \<Longrightarrow> 0 \<le> a \<Longrightarrow> a + sum_list ps < 2 ^ 53 \<Longrightarrow>
   foldl (\<lambda>sum val. js_add sum (of_int val)) (of_int a) ps = of_int (a + sum_list ps)"
proof (induction ps arbitrary: a)
  case Nil
  then show ?case by simp
next
  case (Cons p ps)
  have nn: "0 \<le> sum_list ps" using Cons.prems(1) by (intro sum_list_nonneg) simp
  have "js_add (of_int a) (of_int p) = double (of_int (a + p))"
    by (simp add: js_add_def)
  also have "\<dots> = of_int (a + p)"
    using Cons.prems nn by (intro double_of_int) simp_all
  finally have st: "js_add (of_int a) (of_int p) = of_int (a + p)" .
  have "foldl (\<lambda>sum val. js_add sum (of_int val)) (of_int (a + p)) ps
        = of_int (a + p + sum_list ps)"
    using Cons.prems by (intro Cons.IH) simp_all
  then show ?case by (simp add: st add.assoc)
qed

lemma round_sevenths:
  assumes "0 \<le> s" "s \<le> 700"
  shows "Math_round (js_div (of_int s) 7) = round (of_int s / 7 :: rat)"
proof (cases "s = 0")
  case True
  then show ?thesis by (simp add: js_div_def Math_round_eq)
next
  case False
  with assms have s: "0 < s" by simp
  define x :: rat where "x = of_int s / 7"
  define k where "k = round x"
  have x: "0 < x" using s by (simp add: x_def)
  have "(of_int s :: rat) \<le> of_int 700" using assms(2) by (simp only: of_int_le_iff)
  then have xu: "x \<le> 100" by (simp add: x_def)
  have "\<bar>double x - x\<bar> \<le> x / 2 ^ 53" using x by (rule double_error)
  also have "\<dots> \<le> 100 / 2 ^ 53" using xu by (simp add: divide_right_mono)
  also have "\<dots> < 1 / 14" by simp
  finally have err: "\<bar>double x - x\<bar> < 1 / 14" .
  have k1: "of_int k - 1 / 2 \<le> x" and k2: "x < of_int k + 1 / 2"
    unfolding k_def round_def by linarith+
  have "(of_int (14 * k - 7) :: rat) \<le> of_int (2 * s)"
    using k1 by (simp add: x_def)
  then have "14 * k - 7 \<le> 2 * s" by (simp only: of_int_le_iff)
  then have "14 * k - 6 \<le> 2 * s" by presburger
  then have "(of_int (14 * k - 6) :: rat) \<le> of_int (2 * s)" by (simp only: of_int_le_iff)
  then have lo: "of_int k - 1 / 2 + 1 / 14 \<le> x" by (simp add: x_def)
  have "(of_int (2 * s) :: rat) < of_int (14 * k + 7)"
    using k2 by (simp add: x_def)
  then have "2 * s < 14 * k + 7" by (simp only: of_int_less_iff)
  then have "2 * s \<le> 14 * k + 6" by presburger
  then have "(of_int (2 * s) :: rat) \<le> of_int (14 * k + 6)" by (simp only: of_int_le_iff)
  then have hi: "x \<le> of_int k + 1 / 2 - 1 / 14" by (simp add: x_def)
  have "round (double x) = k" using lo hi err by (rule round_near)
  then show ?thesis by (simp add: js_div_def Math_round_eq x_def k_def)
qed

lemma weeklyAverage_exact:
  assumes "length ps = 7" "\<forall>p\<in>set ps. 0 \<le> p \<and> p \<le> 100"
  shows "weeklyAverage ps = spec_round_mean ps"
proof -
  have nn: "0 \<le> sum_list ps" using assms(2) by (intro sum_list_nonneg) simp
  have up: "sum_list ps \<le> 700"
    using sum_list_upper[of ps 100] assms by simp
  have "foldl (\<lambda>sum val. js_add sum (of_int val)) (of_int 0) ps = of_int (0 + sum_list ps)"
    using assms(2) up by (intro foldl_js_add) simp_all
  then have "foldl (\<lambda>sum val. js_add sum (of_int val)) 0 ps = of_int (sum_list ps)"
    by simp
  then show ?thesis
    using assms(1) round_sevenths[OF nn up]
    by (simp add: weeklyAverage_def spec_round_mean_def)
qed

lemma dayHabits_inline:
  "dayHabits history day
   = (case history day of None \<Rightarrow> Map.empty
      | Some rec \<Rightarrow> (case habits rec of None \<Rightarrow> Map.empty | Some m \<Rightarrow> m))"
  by (simp add: dayHabits_def habitsOrEmpty_def split: option.splits)

lemma weeklyPercentages_series:
  assumes "lastNDates env now 7 = Inr days"
  shows "\<exists>ps. weeklyPercentages env now history habitList = Inr ps
      \<and> map Inr ps = map (\<lambda>day. percentForDay (Some (dayHabits history day)) habitList) days
      \<and> length ps = 7 \<and> (\<forall>p\<in>set ps. 0 \<le> p \<and> p \<le> 100)"
proof -
  let ?f = "\<lambda>day. percentForDay (Some (dayHabits history day)) habitList"
  have "\<forall>x\<in>set days. \<exists>y. ?f x = Inr y"
    by (simp add: percentForDay_Some)
  then obtain ps where ps: "map_result ?f days = Inr ps"
    and m: "map ?f days = map Inr ps"
    using map_result_Inr[of days ?f] by blast
  from m have "length (map ?f days) = length (map Inr ps :: (js_error + int) list)"
    by simp
  then have len: "length ps = 7" using length_lastNDates[OF assms] by simp
  have "0 \<le> p \<and> p \<le> 100" if "p \<in> set ps" for p
  proof -
    from that have "Inr p \<in> set (map ?f days)" by (simp add: m)
    then obtain day where "?f day = Inr p" by auto
    then show ?thesis by (rule percentForDay_range)
  qed
  with ps m len assms show ?thesis by (auto simp: weeklyPercentages_def)
qed

text \<open>
  C4: the weekly series is \<open>lastNDates(7)\<close> mapped through \<open>percentForDay\<close> with each
  date's history entry, the empty map for a date without an entry (or an entry without
  habits), and the weekly average is \<open>round(mean(series))\<close> of that series of seven;
  the series \<open>[100,100,0,100,100,100,100]\<close> has average 86.  The weekly series fails
  only where \<open>lastNDates(7)\<close> does.
\<close>

theorem C4_weeklyAverage:
  "(lastNDates env now 7 = Inr days \<longrightarrow>
      (\<exists>ps. weeklyPercentages env now history habitList = Inr ps
         \<and> map Inr ps
           = map (\<lambda>day. percentForDay
                          (Some (case history day of
                                   None \<Rightarrow> Map.empty
                                 | Some rec \<Rightarrow> (case habits rec of None \<Rightarrow> Map.empty | Some m \<Rightarrow> m)))
                          habitList) days
         \<and> length ps = 7
         \<and> weeklyAverage ps = spec_round_mean ps))
   \<and> (lastNDates env now 7 = Inl e \<longrightarrow> weeklyPercentages env now history habitList = Inl e)
   \<and> weeklyAverage [100, 100, 0, 100, 100, 100, 100] = 86
   \<and> spec_round_mean [100, 100, 0, 100, 100, 100, 100] = 86"
proof (intro conjI impI)
  show r: "spec_round_mean [100, 100, 0, 100, 100, 100, 100] = 86"
    unfolding spec_round_mean_def by (rule round_unique) simp_all
  have "weeklyAverage [100, 100, 0, 100, 100, 100, 100]
        = spec_round_mean [100, 100, 0, 100, 100, 100, 100]"
    by (rule weeklyAverage_exact) simp_all
  with r show "weeklyAverage [100, 100, 0, 100, 100, 100, 100] = 86" by simp
next
  assume "lastNDates env now 7 = Inl e"
  then show "weeklyPercentages env now history habitList = Inl e"
    by (simp add: weeklyPercentages_def)
next
  assume "lastNDates env now 7 = Inr days"
  from weeklyPercentages_series[OF this, of history habitList] obtain ps
    where "weeklyPercentages env now history habitList = Inr ps"
      and "map Inr ps = map (\<lambda>day. percentForDay (Some (dayHabits history day)) habitList) days"
      and "length ps = 7" and "\<forall>p\<in>set ps. 0 \<le> p \<and> p \<le> 100"
    by blast
  then show "\<exists>ps. weeklyPercentages env now history habitList = Inr ps
         \<and> map Inr ps
           = map (\<lambda>day. percentForDay
                          (Some (case history day of
                                   None \<Rightarrow> Map.empty
                                 | Some rec \<Rightarrow> (case habits rec of None \<Rightarrow> Map.empty | Some m \<Rightarrow> m)))
                          habitList) days
         \<and> length ps = 7
         \<and> weeklyAverage ps = spec_round_mean ps"
    using weeklyAverage_exact[of ps] unfolding dayHabits_inline by blast
qed

theorem C4_weeklyAverage_witness:
  "lastNDates new_york_2023 1699290000000 7
     = Inr (map DayKey [19661, 19662, 19663, 19664, 19665, 19666, 19667])
   \<and> weeklyPercentages new_york_2023 1699290000000
       [DayKey 19667 \<mapsto> \<lparr>habits = Some [''wake'' \<mapsto> True]\<rparr>,
        DayKey 19665 \<mapsto> \<lparr>habits = Some [''wake'' \<mapsto> True, ''read'' \<mapsto> True]\<rparr>,
        DayKey 19663 \<mapsto> \<lparr>habits = None\<rparr>]
       [\<lparr>hid = ''wake'', label = ''Wake up early''\<rparr>, \<lparr>hid = ''read'', label = ''Reading''\<rparr>]
     = Inr [0, 0, 0, 0, 100, 0, 50]
   \<and> weeklyAverage [0, 0, 0, 0, 100, 0, 50] = 21
   \<and> spec_round_mean [0, 0, 0, 0, 100, 0, 50] = 21"
proof -
  let ?h = "[DayKey 19667 \<mapsto> \<lparr>habits = Some [''wake'' \<mapsto> True]\<rparr>,
        DayKey 19665 \<mapsto> \<lparr>habits = Some [''wake'' \<mapsto> True, ''read'' \<mapsto> True]\<rparr>,
        DayKey 19663 \<mapsto> \<lparr>habits = None\<rparr>]"
  let ?l = "[\<lparr>hid = ''wake'', label = ''Wake up early''\<rparr>, \<lparr>hid = ''read'', label = ''Reading''\<rparr>]"
  let ?days = "map DayKey [19661, 19662, 19663, 19664, 19665, 19666, 19667]"
  have d: "lastNDates new_york_2023 1699290000000 7 = Inr ?days"
    by code_simp
  have v: "map (\<lambda>day. percentForDay
                          (Some (case ?h day of
                                   None \<Rightarrow> Map.empty
                                 | Some rec \<Rightarrow> (case habits rec of None \<Rightarrow> Map.empty | Some m \<Rightarrow> m)))
                          ?l) ?days
           = map Inr [0, 0, 0, 0, 100, 0, 50]"
    by code_simp
  from C4_weeklyAverage[of new_york_2023 1699290000000 ?days ?h ?l] d
  obtain ps where w: "weeklyPercentages new_york_2023 1699290000000 ?h ?l = Inr ps"
    and m: "map Inr ps
           = map (\<lambda>day. percentForDay
                          (Some (case ?h day of
                                   None \<Rightarrow> Map.empty
                                 | Some rec \<Rightarrow> (case habits rec of None \<Rightarrow> Map.empty | Some m \<Rightarrow> m)))
                          ?l) ?days"
    and a: "weeklyAverage ps = spec_round_mean ps"
    by blast
  from m have "map Inr ps = (map Inr [0, 0, 0, 0, 100, 0, 50] :: (js_error + int) list)"
    unfolding v .
  then have ps: "ps = [0, 0, 0, 0, 100, 0, 50]"
    by (auto simp: map_eq_Cons_conv)
  have r: "spec_round_mean [0, 0, 0, 0, 100, 0, 50] = 21"
    unfolding spec_round_mean_def by (rule round_unique) simp_all
  from d w a r show ?thesis unfolding ps by simp
qed

section \<open>Properties of the monthly insight\<close>

lemma initial_counts_plain:
  assumes "distinct (map hid H)" "\<forall>h\<in>set H. \<not> is_array_index (hid h)"
  shows "initial_counts H = map (\<lambda>h. (hid h, 0)) H"
  using assms
proof (induction H rule: rev_induct)
  case Nil
  then show ?case by (simp add: initial_counts_def)
next
  case (snoc x xs)
  then have IH: "initial_counts xs = map (\<lambda>h. (hid h, 0)) xs" by simp
  have new: "hid x \<notin> fst ` set (map (\<lambda>h. (hid h, 0::nat)) xs)"
    using snoc.prems(1) by (auto simp: image_iff)
  have "initial_counts (xs @ [x]) = obj_set (hid x) 0 (initial_counts xs)"
    by (simp add: initial_counts_def)
  also have "\<dots> = map (\<lambda>h. (hid h, 0)) xs @ [(hid x, 0)]"
    using new snoc.prems(2) unfolding IH obj_set_def by simp
  finally show ?case by simp
qed

lemma map_of_counts:
  "k \<in> hid ` set H \<Longrightarrow> map_of (map (\<lambda>h. (hid h, c (hid h))) H) k = Some (c k)"
  by (induction H) auto

lemma obj_incr_counts:
  assumes "k \<in> hid ` set H"
  shows "obj_incr k (map (\<lambda>h. (hid h, c (hid h))) H)
         = map (\<lambda>h. (hid h, (c(k := c k + 1)) (hid h))) H"
proof -
  have "k \<in> fst ` set (map (\<lambda>h. (hid h, c (hid h))) H)"
    using assms by (auto simp: image_iff)
  then show ?thesis
    by (simp add: obj_incr_def map_of_counts[OF assms] obj_set_def)
qed

lemma count_day_inner:
  assumes "set G \<subseteq> set H"
  shows "foldl (\<lambda>counts h. if record_truthy rec (hid h) then obj_incr (hid h) counts else counts)
           (map (\<lambda>h. (hid h, c (hid h))) H) G
         = map (\<lambda>h. (hid h, c (hid h)
                 + length (filter (\<lambda>g. hid g = hid h \<and> record_truthy rec (hid g)) G))) H"
  using assms
proof (induction G arbitrary: c)
  case Nil
  then show ?case by simp
next
  case (Cons g G)
  then have g: "hid g \<in> hid ` set H" and G: "set G \<subseteq> set H" by auto
  show ?case
  proof (cases "record_truthy rec (hid g)")
    case True
    let ?F = "\<lambda>counts h. if record_truthy rec (hid h) then obj_incr (hid h) counts else counts"
    let ?c = "c(hid g := c (hid g) + 1)"
    have "foldl ?F (map (\<lambda>h. (hid h, c (hid h))) H) (g # G)
          = foldl ?F (obj_incr (hid g) (map (\<lambda>h. (hid h, c (hid h))) H)) G"
      using True by simp
    also have "\<dots> = foldl ?F (map (\<lambda>h. (hid h, ?c (hid h))) H) G"
      by (simp only: obj_incr_counts[OF g])
    also have "\<dots> = map (\<lambda>h. (hid h, ?c (hid h)
                 + length (filter (\<lambda>g. hid g = hid h \<and> record_truthy rec (hid g)) G))) H"
      by (rule Cons.IH[OF G])
    also have "\<dots> = map (\<lambda>h. (hid h, c (hid h)
                 + length (filter (\<lambda>g. hid g = hid h \<and> record_truthy rec (hid g)) (g # G)))) H"
      using True by (intro map_cong refl) auto
    finally show ?thesis .
  next
    case False
    then show ?thesis
      by (simp add: Cons.IH[OF G])
  qed
qed

lemma distinct_filter_one:
  assumes "distinct (map hid H)" "h \<in> set H"
  shows "length (filter (\<lambda>g. hid g = hid h \<and> P (hid g)) H) = (if P (hid h) then 1 else 0)"
  using assms
proof (induction H)
  case Nil
  then show ?case by simp
next
  case (Cons a H)
  show ?case
  proof (cases "a = h")
    case True
    have "filter (\<lambda>g. hid g = hid h \<and> P (hid g)) H = []"
      using Cons.prems(1) True by (auto simp: filter_empty_conv image_iff)
    then show ?thesis using True by simp
  next
    case False
    with Cons.prems have h: "h \<in> set H" and ne: "hid a \<noteq> hid h"
      by (auto simp: image_iff)
    then show ?thesis using Cons by simp
  qed
qed

lemma count_day_counts:
  assumes "distinct (map hid H)"
  shows "count_day history H (map (\<lambda>h. (hid h, c (hid h))) H) day
         = map (\<lambda>h. (hid h, c (hid h)
              + (if (case history day of None \<Rightarrow> False | Some rec \<Rightarrow> record_truthy rec (hid h))
                 then 1 else 0))) H"
proof (cases "history day")
  case None
  then show ?thesis by (simp add: count_day_def)
next
  case (Some rec)
  have "count_day history H (map (\<lambda>h. (hid h, c (hid h))) H) day
        = map (\<lambda>h. (hid h, c (hid h)
                 + length (filter (\<lambda>g. hid g = hid h \<and> record_truthy rec (hid g)) H))) H"
    using Some by (simp add: count_day_def count_day_inner)
  also have "\<dots> = map (\<lambda>h. (hid h, c (hid h) + (if record_truthy rec (hid h) then 1 else 0))) H"
    using assms by (intro map_cong refl) (simp add: distinct_filter_one)
  finally show ?thesis using Some by simp
qed

lemma count_days_counts:
  assumes "distinct (map hid H)"
  shows "foldl (count_day history H) (map (\<lambda>h. (hid h, c (hid h))) H) days
         = map (\<lambda>h. (hid h, c (hid h)
              + length (filter (\<lambda>day. case history day of
                                         None \<Rightarrow> False
                                       | Some rec \<Rightarrow> record_truthy rec (hid h)) days))) H"
proof (induction days arbitrary: c)
  case Nil
  then show ?case by simp
next
  case (Cons day days)
  let ?t = "\<lambda>k day. case history day of None \<Rightarrow> False | Some rec \<Rightarrow> record_truthy rec k"
  let ?c = "\<lambda>k. c k + (if ?t k day then 1 else 0)"
  have "foldl (count_day history H) (map (\<lambda>h. (hid h, c (hid h))) H) (day # days)
        = foldl (count_day history H) (map (\<lambda>h. (hid h, ?c (hid h))) H) days"
    by (simp add: count_day_counts[OF assms])
  also have "\<dots> = map (\<lambda>h. (hid h, ?c (hid h) + length (filter (?t (hid h)) days))) H"
    by (rule Cons.IH)
  finally show ?case by simp
qed

lemma record_truthy_spec:
  assumes "k \<notin> set Object_prototype_keys"
  shows "(case history day of None \<Rightarrow> False | Some rec \<Rightarrow> record_truthy rec k)
         = (case history day of
              None \<Rightarrow> False
            | Some rec \<Rightarrow> (case habits rec of None \<Rightarrow> False | Some m \<Rightarrow> m k = Some True))"
  using assms by (simp add: record_truthy_def js_truthy_get_own split: option.splits)

lemma monthly_counts:
  assumes "distinct (map hid H)"
    and "\<forall>h\<in>set H. \<not> is_array_index (hid h) \<and> hid h \<notin> set Object_prototype_keys"
  shows "foldl (count_day history H) (initial_counts H) days
         = map (\<lambda>h. (hid h, spec_true_count days history h)) H"
proof -
  have "foldl (count_day history H) (map (\<lambda>h. (hid h, (\<lambda>k. 0) (hid h))) H) days
        = map (\<lambda>h. (hid h, (\<lambda>k. 0) (hid h) + length (filter (\<lambda>day. case history day of
                                         None \<Rightarrow> False
                                       | Some rec \<Rightarrow> record_truthy rec (hid h)) days))) H"
    by (rule count_days_counts[OF assms(1)])
  then have "foldl (count_day history H) (initial_counts H) days
        = map (\<lambda>h. (hid h, 0 + length (filter (\<lambda>day. case history day of
                                         None \<Rightarrow> False
                                       | Some rec \<Rightarrow> record_truthy rec (hid h)) days))) H"
    using assms by (simp add: initial_counts_plain)
  also have "\<dots> = map (\<lambda>h. (hid h, spec_true_count days history h)) H"
    using assms(2) by (intro map_cong refl) (simp add: spec_true_count_def record_truthy_spec)
  finally show ?thesis .
qed

lemma reduce_entries:
  "foldl (\<lambda>a b. if R (snd b) (snd a) then b else a) (hid x, f x) (map (\<lambda>h. (hid h, f h)) xs)
   = (\<lambda>h. (hid h, f h)) (foldl (\<lambda>a b. if R (f b) (f a) then b else a) x xs)"
  by (induction xs arbitrary: x) simp_all

lemma find_by_id:
  "distinct (map hid H) \<Longrightarrow> g \<in> set H \<Longrightarrow> find (\<lambda>h. hid h = hid g) H = Some g"
proof (induction H)
  case Nil
  then show ?case by simp
next
  case (Cons a H)
  then show ?case by (cases "a = g") (auto simp: image_iff)
qed

lemma first_max:
  fixes f :: "'a \<Rightarrow> 'b::linorder"
  shows "\<exists>i<length (x # xs).
           foldl (\<lambda>a b. if f a < f b then b else a) x xs = (x # xs) ! i
         \<and> (\<forall>j<length (x # xs). f ((x # xs) ! j) \<le> f ((x # xs) ! i))
         \<and> (\<forall>j<i. f ((x # xs) ! j) < f ((x # xs) ! i))"
proof (induction xs rule: rev_induct)
  case Nil
  then show ?case by simp
next
  case (snoc y ys)
  let ?l = "x # ys"
  from snoc obtain i where i: "i < length ?l"
    and best: "foldl (\<lambda>a b. if f a < f b then b else a) x ys = ?l ! i"
    and ge: "\<forall>j<length ?l. f (?l ! j) \<le> f (?l ! i)"
    and gt: "\<forall>j<i. f (?l ! j) < f (?l ! i)"
    by blast
  have app: "x # ys @ [y] = ?l @ [y]" by simp
  have old: "(?l @ [y]) ! j = ?l ! j" if "j < length ?l" for j
    using that by (simp only: nth_append if_True)
  have new: "(?l @ [y]) ! length ?l = y"
    by (simp only: nth_append_length)
  show ?case
  proof (cases "f (?l ! i) < f y")
    case True
    have r: "foldl (\<lambda>a b. if f a < f b then b else a) x (ys @ [y]) = (?l @ [y]) ! length ?l"
      using True best by (simp only: new; simp)
    have a: "f ((?l @ [y]) ! j) \<le> f ((?l @ [y]) ! length ?l)" if "j < length (?l @ [y])" for j
    proof (cases "j < length ?l")
      case True
      with ge have "f (?l ! j) \<le> f (?l ! i)" by blast
      with \<open>f (?l ! i) < f y\<close> show ?thesis by (simp only: old[OF True] new; simp)
    next
      case False
      with that have "j = length ?l" by simp
      then show ?thesis by simp
    qed
    have b: "f ((?l @ [y]) ! j) < f ((?l @ [y]) ! length ?l)" if "j < length ?l" for j
    proof -
      from ge that have "f (?l ! j) \<le> f (?l ! i)" by blast
      with True show ?thesis by (simp only: old[OF that] new; simp)
    qed
    have "length ?l < length (?l @ [y])" by simp
    with r a b show ?thesis unfolding app by blast
  next
    case False
    have r: "foldl (\<lambda>a b. if f a < f b then b else a) x (ys @ [y]) = (?l @ [y]) ! i"
      using False best by (simp only: old[OF i]; simp)
    have a: "f ((?l @ [y]) ! j) \<le> f ((?l @ [y]) ! i)" if "j < length (?l @ [y])" for j
    proof (cases "j < length ?l")
      case True
      with ge show ?thesis by (simp only: old[OF True] old[OF i]; simp)
    next
      case F: False
      with that have "j = length ?l" by simp
      with False show ?thesis by (simp only: new old[OF i]; simp)
    qed
    have b: "f ((?l @ [y]) ! j) < f ((?l @ [y]) ! i)" if "j < i" for j
    proof -
      from that i have j: "j < length ?l" by simp
      from gt that show ?thesis by (simp only: old[OF j] old[OF i]; simp)
    qed
    have "i < length (?l @ [y])" using i by simp
    with r a b show ?thesis unfolding app by blast
  qed
qed

lemma first_min:
  fixes f :: "'a \<Rightarrow> nat"
  shows "\<exists>i<length (x # xs).
           foldl (\<lambda>a b. if f b < f a then b else a) x xs = (x # xs) ! i
         \<and> (\<forall>j<length (x # xs). f ((x # xs) ! i) \<le> f ((x # xs) ! j))
         \<and> (\<forall>j<i. f ((x # xs) ! i) < f ((x # xs) ! j))"
  using first_max[of x xs "\<lambda>h. - int (f h)"] by simp

lemma count_no_habits: "foldl (count_day history []) counts days = counts"
  by (induction days) (simp_all add: count_day_def split: option.splits)

text \<open>
  C5 (amended): \<open>monthlyInsight\<close> counts, for each habit, the days of \<open>lastNDates(30)\<close>
  whose entry has the habit true, and returns as \<open>bestHabit\<close> a habit of highest count
  and as \<open>worstHabit\<close> a habit of lowest count, in both cases the first such habit of
  the list, when the habit ids are distinct and none of them is an array index or the
  name of a property inherited from \<open>Object.prototype\<close>.  On the empty habit list both
  are null.  It fails only where \<open>lastNDates(30)\<close> does.
\<close>

theorem C5_monthlyInsight:
  assumes "distinct (map hid H)"
    and "\<forall>h\<in>set H. \<not> is_array_index (hid h) \<and> hid h \<notin> set Object_prototype_keys"
  shows "(lastNDates env now 30 = Inl e \<longrightarrow> monthlyInsight env now history H = Inl e)
    \<and> (lastNDates env now 30 = Inr days \<longrightarrow>
        (\<exists>r. monthlyInsight env now history H = Inr r
         \<and> (H = [] \<longrightarrow> r = \<lparr>bestHabit = None, worstHabit = None\<rparr>)
         \<and> (H \<noteq> [] \<longrightarrow>
            (\<exists>i<length H. bestHabit r = Some (H ! i)
               \<and> (\<forall>j<length H. spec_true_count days history (H ! j)
                                 \<le> spec_true_count days history (H ! i))
               \<and> (\<forall>j<i. spec_true_count days history (H ! j)
                          < spec_true_count days history (H ! i)))
          \<and> (\<exists>i<length H. worstHabit r = Some (H ! i)
               \<and> (\<forall>j<length H. spec_true_count days history (H ! i)
                                 \<le> spec_true_count days history (H ! j))
               \<and> (\<forall>j<i. spec_true_count days history (H ! i)
                          < spec_true_count days history (H ! j))))))"
proof (intro conjI impI)
  assume "lastNDates env now 30 = Inl e"
  then show "monthlyInsight env now history H = Inl e"
    by (simp add: monthlyInsight_def)
next
  assume days: "lastNDates env now 30 = Inr days"
  define r where "r = (let counts = foldl (count_day history H) (initial_counts H) days;
                   entries = counts
               in if length entries = 0 then \<lparr>bestHabit = None, worstHabit = None\<rparr>
                  else
                    let best = foldl (\<lambda>a b. if snd b > snd a then b else a) (hd entries) (tl entries);
                        worst = foldl (\<lambda>a b. if snd b < snd a then b else a) (hd entries) (tl entries)
                    in \<lparr>bestHabit = find (\<lambda>h. hid h = fst best) H,
                        worstHabit = find (\<lambda>h. hid h = fst worst) H\<rparr>)"
  have m: "monthlyInsight env now history H = Inr r"
    by (simp add: monthlyInsight_def days r_def)
  have body: "(H = [] \<longrightarrow> r = \<lparr>bestHabit = None, worstHabit = None\<rparr>)
         \<and> (H \<noteq> [] \<longrightarrow>
            (\<exists>i<length H. bestHabit r = Some (H ! i)
               \<and> (\<forall>j<length H. spec_true_count days history (H ! j)
                                 \<le> spec_true_count days history (H ! i))
               \<and> (\<forall>j<i. spec_true_count days history (H ! j)
                          < spec_true_count days history (H ! i)))
          \<and> (\<exists>i<length H. worstHabit r = Some (H ! i)
               \<and> (\<forall>j<length H. spec_true_count days history (H ! i)
                                 \<le> spec_true_count days history (H ! j))
               \<and> (\<forall>j<i. spec_true_count days history (H ! i)
                          < spec_true_count days history (H ! j))))"
  proof (cases H)
    case Nil
    then show ?thesis
      by (simp add: r_def initial_counts_def count_no_habits Let_def)
  next
    case (Cons x xs)
    let ?tc = "spec_true_count days history"
    let ?e = "\<lambda>h. (hid h, ?tc h)"
    have counts: "foldl (count_day history H) (initial_counts H) days = map ?e H"
      using assms by (rule monthly_counts)
    obtain i where i: "i < length H"
      and bi: "foldl (\<lambda>a b. if ?tc a < ?tc b then b else a) x xs = H ! i"
      and bge: "\<forall>j<length H. ?tc (H ! j) \<le> ?tc (H ! i)"
      and bgt: "\<forall>j<i. ?tc (H ! j) < ?tc (H ! i)"
      using first_max[of x xs ?tc] unfolding Cons by blast
    obtain k where k: "k < length H"
      and wk: "foldl (\<lambda>a b. if ?tc b < ?tc a then b else a) x xs = H ! k"
      and wle: "\<forall>j<length H. ?tc (H ! k) \<le> ?tc (H ! j)"
      and wlt: "\<forall>j<k. ?tc (H ! k) < ?tc (H ! j)"
      using first_min[of x xs ?tc] unfolding Cons by blast
    have best: "foldl (\<lambda>a b. if snd b > snd a then b else a) (?e x) (map ?e xs) = ?e (H ! i)"
      using reduce_entries[of "\<lambda>u v. v < u" x ?tc xs] by (simp add: bi)
    have worst: "foldl (\<lambda>a b. if snd b < snd a then b else a) (?e x) (map ?e xs) = ?e (H ! k)"
      using reduce_entries[of "\<lambda>u v. u < v" x ?tc xs] by (simp add: wk)
    have fb: "find (\<lambda>h. hid h = hid (H ! i)) H = Some (H ! i)"
      using assms(1) i by (intro find_by_id) simp_all
    have fw: "find (\<lambda>h. hid h = hid (H ! k)) H = Some (H ! k)"
      using assms(1) k by (intro find_by_id) simp_all
    have b: "bestHabit r = Some (H ! i)"
      unfolding r_def Let_def counts using best fb by (simp add: Cons)
    have w: "worstHabit r = Some (H ! k)"
      unfolding r_def Let_def counts using worst fw by (simp add: Cons)
    from i b bge bgt k w wle wlt show ?thesis using Cons by blast
  qed
  from m body show "\<exists>r. monthlyInsight env now history H = Inr r
         \<and> (H = [] \<longrightarrow> r = \<lparr>bestHabit = None, worstHabit = None\<rparr>)
         \<and> (H \<noteq> [] \<longrightarrow>
            (\<exists>i<length H. bestHabit r = Some (H ! i)
               \<and> (\<forall>j<length H. spec_true_count days history (H ! j)
                                 \<le> spec_true_count days history (H ! i))
               \<and> (\<forall>j<i. spec_true_count days history (H ! j)
                          < spec_true_count days history (H ! i)))
          \<and> (\<exists>i<length H. worstHabit r = Some (H ! i)
               \<and> (\<forall>j<length H. spec_true_count days history (H ! i)
                                 \<le> spec_true_count days history (H ! j))
               \<and> (\<forall>j<i. spec_true_count days history (H ! i)
                          < spec_true_count days history (H ! j))))"
    by blast
qed

theorem C5_monthlyInsight_witness:
  "distinct (map hid [\<lparr>hid = ''wake'', label = ''Wake up early''\<rparr>,
                      \<lparr>hid = ''exercise'', label = ''Exercise''\<rparr>,
                      \<lparr>hid = ''read'', label = ''Reading''\<rparr>])
   \<and> \<not> is_array_index ''wake'' \<and> \<not> is_array_index ''exercise'' \<and> \<not> is_array_index ''read''
   \<and> ''wake'' \<notin> set Object_prototype_keys \<and> ''exercise'' \<notin> set Object_prototype_keys
   \<and> ''read'' \<notin> set Object_prototype_keys
   \<and> lastNDates new_york_2023 1700000000000 30 = Inr (map DayKey [19646..19675])
   \<and> monthlyInsight new_york_2023 1700000000000
        [DayKey 19675 \<mapsto> \<lparr>habits = Some [''exercise'' \<mapsto> True]\<rparr>]
        [\<lparr>hid = ''wake'', label = ''Wake up early''\<rparr>, \<lparr>hid = ''exercise'', label = ''Exercise''\<rparr>,
         \<lparr>hid = ''read'', label = ''Reading''\<rparr>]
       = Inr \<lparr>bestHabit = Some \<lparr>hid = ''exercise'', label = ''Exercise''\<rparr>,
              worstHabit = Some \<lparr>hid = ''wake'', label = ''Wake up early''\<rparr>\<rparr>"
proof -
  let ?a = "\<lparr>hid = ''wake'', label = ''Wake up early''\<rparr>"
  let ?b = "\<lparr>hid = ''exercise'', label = ''Exercise''\<rparr>"
  let ?c = "\<lparr>hid = ''read'', label = ''Reading''\<rparr>"
  let ?H = "[?a, ?b, ?c]"
  let ?h = "[DayKey 19675 \<mapsto> \<lparr>habits = Some [''exercise'' \<mapsto> True]\<rparr>] :: history"
  let ?days = "map DayKey [19646..19675]"
  let ?tc = "spec_true_count ?days ?h"
  have d: "distinct (map hid ?H)" by simp
  have ia: "\<not> is_array_index ''wake''" and ib: "\<not> is_array_index ''exercise''"
    and ic: "\<not> is_array_index ''read''"
    by (simp_all add: is_array_index_def is_digit_def)
  have p: "''wake'' \<notin> set Object_prototype_keys" "''exercise'' \<notin> set Object_prototype_keys"
    "''read'' \<notin> set Object_prototype_keys"
    by (simp_all add: Object_prototype_keys_def)
  have hyp: "\<forall>h\<in>set ?H. \<not> is_array_index (hid h) \<and> hid h \<notin> set Object_prototype_keys"
    using ia ib ic p by simp
  have days: "lastNDates new_york_2023 1700000000000 30 = Inr ?days"
    by code_simp
  have ta: "?tc ?a = 0" by code_simp
  have tb: "?tc ?b = 1" by code_simp
  have tc: "?tc ?c = 0" by code_simp
  have n: "?H ! 0 = ?a" "?H ! 1 = ?b" "?H ! 2 = ?c" by simp_all
  have three: "i = 0 \<or> i = 1 \<or> i = 2" if "i < length ?H" for i :: nat
    using that by auto
  from C5_monthlyInsight[OF d hyp, where env = new_york_2023 and now = 1700000000000
      and days = ?days and history = ?h] days
  obtain r i k where m: "monthlyInsight new_york_2023 1700000000000 ?h ?H = Inr r"
    and i: "i < length ?H" and bi: "bestHabit r = Some (?H ! i)"
    and bge: "\<forall>j<length ?H. ?tc (?H ! j) \<le> ?tc (?H ! i)"
    and k: "k < length ?H" and wk: "worstHabit r = Some (?H ! k)"
    and wle: "\<forall>j<length ?H. ?tc (?H ! k) \<le> ?tc (?H ! j)"
    and wlt: "\<forall>j<k. ?tc (?H ! k) < ?tc (?H ! j)"
    by blast
  have l: "(1::nat) < length ?H" "(0::nat) < length ?H" by simp_all
  from bge[rule_format, OF l(1)] have "?tc (?H ! 1) \<le> ?tc (?H ! i)" .
  then have "1 \<le> ?tc (?H ! i)" by (simp only: n tb)
  with three[OF i] have "i = 1" using ta tc by (auto simp only: n)
  with bi have best: "bestHabit r = Some ?b" by (simp only: n)
  from wle[rule_format, OF l(2)] have "?tc (?H ! k) \<le> ?tc (?H ! 0)" .
  then have k0: "?tc (?H ! k) = 0" by (simp only: n ta)
  have "k \<noteq> 2"
  proof
    assume k2: "k = 2"
    then have "(0::nat) < k" by simp
    from wlt[rule_format, OF this] have "?tc (?H ! 2) < ?tc (?H ! 0)" by (simp only: k2)
    then show False by (simp only: n ta tc; simp)
  qed
  with three[OF k] k0 tb have "k = 0" by (auto simp only: n)
  with wk have worst: "worstHabit r = Some ?a" by (simp only: n)
  have "r = \<lparr>bestHabit = Some ?b, worstHabit = Some ?a\<rparr>"
    using best worst by (cases r) simp
  with m have "monthlyInsight new_york_2023 1700000000000 ?h ?H
               = Inr \<lparr>bestHabit = Some ?b, worstHabit = Some ?a\<rparr>"
    by simp
  with d ia ib ic p days show ?thesis by blast
qed

theorem C5_monthlyInsight_counterexample:
  "monthlyInsight new_york_2023 1700000000000 Map.empty
     [\<lparr>hid = ''2'', label = ''2''\<rparr>, \<lparr>hid = ''1'', label = ''1''\<rparr>]
   = Inr \<lparr>bestHabit = Some \<lparr>hid = ''1'', label = ''1''\<rparr>,
          worstHabit = Some \<lparr>hid = ''1'', label = ''1''\<rparr>\<rparr>
   \<and> lastNDates new_york_2023 1700000000000 30 = Inr (map DayKey [19646..19675])
   \<and> spec_true_count (map DayKey [19646..19675]) Map.empty \<lparr>hid = ''2'', label = ''2''\<rparr> = 0
   \<and> spec_true_count (map DayKey [19646..19675]) Map.empty \<lparr>hid = ''1'', label = ''1''\<rparr> = 0"
proof (intro conjI)
  show "monthlyInsight new_york_2023 1700000000000 Map.empty
     [\<lparr>hid = ''2'', label = ''2''\<rparr>, \<lparr>hid = ''1'', label = ''1''\<rparr>]
   = Inr \<lparr>bestHabit = Some \<lparr>hid = ''1'', label = ''1''\<rparr>,
          worstHabit = Some \<lparr>hid = ''1'', label = ''1''\<rparr>\<rparr>"
    by code_simp
  show "lastNDates new_york_2023 1700000000000 30 = Inr (map DayKey [19646..19675])"
    by code_simp
  show "spec_true_count (map DayKey [19646..19675]) Map.empty \<lparr>hid = ''2'', label = ''2''\<rparr> = 0"
    by code_simp
  show "spec_true_count (map DayKey [19646..19675]) Map.empty \<lparr>hid = ''1'', label = ''1''\<rparr> = 0"
    by code_simp
qed

section \<open>Totality of the derivation functions\<close>





section \<open>Properties of adding and removing a habit\<close>

lemma replace_runs_chars:
  "c \<in> set (replace_runs s) \<Longrightarrow> is_slug_char c \<or> c = CHR ''-''"
  by (induction s rule: replace_runs.induct) (auto split: if_splits)

lemma strip_dashes_subset: "set (strip_dashes s) \<subseteq> set s"
proof -
  have tl: "set (tl xs) \<subseteq> set xs" for xs :: string
    by (cases xs) auto
  have bl: "set (butlast xs) \<subseteq> set xs" for xs :: string
    by (auto dest: in_set_butlastD)
  show ?thesis
    unfolding strip_dashes_def Let_def using tl[of s] bl[of s] bl[of "tl s"] by auto
qed

lemma digits_chars: "0 \<le> n \<Longrightarrow> c \<in> set (digits n) \<Longrightarrow> is_digit c"
proof (induction n rule: digits.induct)
  case (1 n)
  show ?case
  proof (cases "n < 10")
    case True
    with "1.prems" have "c = char_of (48 + n)"
      by (simp add: digits.simps[of n])
    moreover have "(48 + n) mod 256 = 48 + n" using True "1.prems"(1) by simp
    ultimately show ?thesis using True "1.prems"(1) by (simp add: is_digit_def)
  next
    case False
    with "1.prems" have "c \<in> set (digits (n div 10)) \<or> c = char_of (48 + n mod 10)"
      by (auto simp: digits.simps[of n])
    then show ?thesis
    proof
      assume "c \<in> set (digits (n div 10))"
      with "1.IH" False "1.prems"(1) show ?thesis by simp
    next
      assume c: "c = char_of (48 + n mod 10)"
      have "0 \<le> n mod 10" "n mod 10 < 10" by simp_all
      then have "(48 + n mod 10) mod 256 = 48 + n mod 10" by simp
      with c \<open>0 \<le> n mod 10\<close> \<open>n mod 10 < 10\<close> show ?thesis by (simp add: is_digit_def)
    qed
  qed
qed

lemma number_text_chars: "c \<in> set (number_text i) \<Longrightarrow> is_digit c \<or> c = CHR ''-''"
proof (cases "i < 0")
  case True
  moreover assume "c \<in> set (number_text i)"
  ultimately have "c = CHR ''-'' \<or> c \<in> set (digits (- i))"
    by (simp add: number_text_def)
  then show ?thesis using True digits_chars[of "- i" c] by auto
next
  case False
  moreover assume "c \<in> set (number_text i)"
  ultimately have "c \<in> set (digits i)"
    by (simp add: number_text_def)
  then show ?thesis using False digits_chars[of i c] by auto
qed

lemma slugify_no_underscore: "CHR ''_'' \<notin> set (slugify now txt)"
proof
  assume a: "CHR ''_'' \<in> set (slugify now txt)"
  have u: "\<not> is_slug_char CHR ''_''" "\<not> is_digit CHR ''_''"
    by (simp_all add: is_slug_char_def is_digit_def)
  let ?s = "take 30 (strip_dashes (replace_runs (toLowerCase txt)))"
  show False
  proof (cases "?s = []")
    case True
    with a have "CHR ''_'' \<in> set (''habit-'' @ number_text now)"
      by (simp add: slugify_def Let_def)
    then have "CHR ''_'' \<in> set (number_text now)" by simp
    with u show False by (auto dest: number_text_chars)
  next
    case False
    with a have "CHR ''_'' \<in> set ?s" by (simp add: slugify_def Let_def)
    then have "CHR ''_'' \<in> set (strip_dashes (replace_runs (toLowerCase txt)))"
      by (rule in_set_takeD)
    then have "CHR ''_'' \<in> set (replace_runs (toLowerCase txt))"
      using strip_dashes_subset by blast
    with u show False by (auto dest: replace_runs_chars)
  qed
qed

lemma slugify_not_proto: "slugify now txt \<noteq> ''__proto__''"
proof
  assume "slugify now txt = ''__proto__''"
  then have "CHR ''_'' \<in> set (slugify now txt)" by simp
  with slugify_no_underscore show False by blast
qed

lemma backfill_absent: "prev key = None \<Longrightarrow> backfill ident prev key = None"
  by (simp add: backfill_def)

lemma backfill_entry:
  assumes "ident \<noteq> ''__proto__''" and "prev key = Some entry"
  shows "\<exists>e m. backfill ident prev key = Some e \<and> habits e = Some m \<and> m ident = Some False
           \<and> (\<forall>k. k \<noteq> ident \<longrightarrow>
                  m k = (case habits entry of None \<Rightarrow> None | Some old \<Rightarrow> old k))"
  using assms
  by (auto simp: backfill_def js_assign_def habitsOrEmpty_def split: option.splits)

lemma delete_key_absent: "prev key = None \<Longrightarrow> delete_key ident prev key = None"
  by (simp add: delete_key_def)

lemma delete_key_plain:
  "prev key = Some entry \<Longrightarrow> habits entry = None \<Longrightarrow> delete_key ident prev key = Some entry"
  by (simp add: delete_key_def)

lemma delete_key_entry:
  assumes "prev key = Some entry" and "habits entry = Some old"
  shows "\<exists>e m. delete_key ident prev key = Some e \<and> habits e = Some m \<and> m ident = None
           \<and> (\<forall>k. k \<noteq> ident \<longrightarrow> m k = old k)"
  using assms by (auto simp: delete_key_def)

text \<open>
  C9: adding a habit (the trimmed input is not empty and its slug is not yet the id of
  a habit) appends the habit and leaves every existing date's history entry with the
  value false for the new id, every other key of the entry as it was (none, for an
  entry without habits), and creates no entry; otherwise it changes nothing.  Removing a
  habit filters it out of the list and deletes its key from every existing date's
  history entry, every other key as it was; an entry without habits stays as it is and
  no entry is created or removed.
\<close>

theorem C9_habit_sync:
  "(js_trim (app_newHabit st) \<noteq> []
      \<and> \<not> list_ex (\<lambda>h. hid h = slugify now (js_trim (app_newHabit st))) (app_habits st)
    \<longrightarrow> app_habits (handleAddHabit now st)
          = app_habits st @ [\<lparr>hid = slugify now (js_trim (app_newHabit st)),
                               label = js_trim (app_newHabit st)\<rparr>]
        \<and> (\<forall>key. app_history st key = None \<longrightarrow> app_history (handleAddHabit now st) key = None)
        \<and> (\<forall>key entry. app_history st key = Some entry
              \<longrightarrow> (\<exists>e m. app_history (handleAddHabit now st) key = Some e
                        \<and> habits e = Some m
                        \<and> m (slugify now (js_trim (app_newHabit st))) = Some False
                        \<and> (\<forall>k. k \<noteq> slugify now (js_trim (app_newHabit st)) \<longrightarrow>
                              m k = (case habits entry of None \<Rightarrow> None | Some old \<Rightarrow> old k)))))
   \<and> (\<not> (js_trim (app_newHabit st) \<noteq> []
          \<and> \<not> list_ex (\<lambda>h. hid h = slugify now (js_trim (app_newHabit st))) (app_habits st))
      \<longrightarrow> handleAddHabit now st = st)
   \<and> app_habits (handleDeleteHabit ident st) = filter (\<lambda>h. hid h \<noteq> ident) (app_habits st)
   \<and> (\<forall>key. app_history st key = None \<longrightarrow> app_history (handleDeleteHabit ident st) key = None)
   \<and> (\<forall>key entry. app_history st key = Some entry \<and> habits entry = None
          \<longrightarrow> app_history (handleDeleteHabit ident st) key = Some entry)
   \<and> (\<forall>key entry old. app_history st key = Some entry \<and> habits entry = Some old
          \<longrightarrow> (\<exists>e m. app_history (handleDeleteHabit ident st) key = Some e
                    \<and> habits e = Some m \<and> m ident = None
                    \<and> (\<forall>k. k \<noteq> ident \<longrightarrow> m k = old k)))"
proof -
  let ?id = "slugify now (js_trim (app_newHabit st))"
  let ?guard = "js_trim (app_newHabit st) \<noteq> []
      \<and> \<not> list_ex (\<lambda>h. hid h = ?id) (app_habits st)"
  have add: "app_habits (handleAddHabit now st)
          = app_habits st @ [\<lparr>hid = ?id, label = js_trim (app_newHabit st)\<rparr>]
        \<and> (\<forall>key. app_history st key = None \<longrightarrow> app_history (handleAddHabit now st) key = None)
        \<and> (\<forall>key entry. app_history st key = Some entry
              \<longrightarrow> (\<exists>e m. app_history (handleAddHabit now st) key = Some e
                        \<and> habits e = Some m \<and> m ?id = Some False
                        \<and> (\<forall>k. k \<noteq> ?id \<longrightarrow>
                              m k = (case habits entry of None \<Rightarrow> None | Some old \<Rightarrow> old k))))"
    if a: ?guard
  proof -
    have h: "app_history (handleAddHabit now st) = backfill ?id (app_history st)"
      using a by (simp add: handleAddHabit_def Let_def)
    have 1: "app_habits (handleAddHabit now st)
          = app_habits st @ [\<lparr>hid = ?id, label = js_trim (app_newHabit st)\<rparr>]"
      using a by (simp add: handleAddHabit_def Let_def)
    have 2: "\<forall>key. app_history st key = None \<longrightarrow> app_history (handleAddHabit now st) key = None"
      by (simp add: h backfill_absent)
    have 3: "\<forall>key entry. app_history st key = Some entry
              \<longrightarrow> (\<exists>e m. app_history (handleAddHabit now st) key = Some e
                        \<and> habits e = Some m \<and> m ?id = Some False
                        \<and> (\<forall>k. k \<noteq> ?id \<longrightarrow>
                              m k = (case habits entry of None \<Rightarrow> None | Some old \<Rightarrow> old k)))"
      unfolding h using backfill_entry[OF slugify_not_proto[of now "js_trim (app_newHabit st)"]]
      by blast
    from 1 2 3 show ?thesis by blast
  qed
  have skip: "handleAddHabit now st = st" if "\<not> ?guard"
    using that by (auto simp: handleAddHabit_def Let_def)
  have d1: "app_habits (handleDeleteHabit ident st) = filter (\<lambda>h. hid h \<noteq> ident) (app_habits st)"
    by (simp add: handleDeleteHabit_def)
  have d2: "\<forall>key. app_history st key = None \<longrightarrow> app_history (handleDeleteHabit ident st) key = None"
    by (simp add: handleDeleteHabit_def delete_key_absent)
  have d3: "\<forall>key entry. app_history st key = Some entry \<and> habits entry = None
          \<longrightarrow> app_history (handleDeleteHabit ident st) key = Some entry"
    by (simp add: handleDeleteHabit_def delete_key_plain)
  have d4: "\<forall>key entry old. app_history st key = Some entry \<and> habits entry = Some old
          \<longrightarrow> (\<exists>e m. app_history (handleDeleteHabit ident st) key = Some e
                    \<and> habits e = Some m \<and> m ident = None
                    \<and> (\<forall>k. k \<noteq> ident \<longrightarrow> m k = old k))"
    using delete_key_entry[of "app_history st" _ _ _ ident]
    by (simp add: handleDeleteHabit_def)
  from add skip d1 d2 d3 d4 show ?thesis by blast
qed

theorem C9_habit_sync_witness:
  "js_trim ''  Drink Water '' = ''Drink Water''
   \<and> slugify 1700000000000 ''Drink Water'' = ''drink-water''
   \<and> \<not> list_ex (\<lambda>h. hid h = ''drink-water'') [\<lparr>hid = ''wake'', label = ''Wake up early''\<rparr>]
   \<and> app_habits (handleAddHabit 1700000000000
        \<lparr>app_habits = [\<lparr>hid = ''wake'', label = ''Wake up early''\<rparr>],
         app_history = [DayKey 19675 \<mapsto> \<lparr>habits = Some [''wake'' \<mapsto> True]\<rparr>,
                        DayKey 19674 \<mapsto> \<lparr>habits = None\<rparr>],
         app_newHabit = ''  Drink Water ''\<rparr>)
       = [\<lparr>hid = ''wake'', label = ''Wake up early''\<rparr>,
          \<lparr>hid = ''drink-water'', label = ''Drink Water''\<rparr>]
   \<and> app_history (handleAddHabit 1700000000000
        \<lparr>app_habits = [\<lparr>hid = ''wake'', label = ''Wake up early''\<rparr>],
         app_history = [DayKey 19675 \<mapsto> \<lparr>habits = Some [''wake'' \<mapsto> True]\<rparr>,
                        DayKey 19674 \<mapsto> \<lparr>habits = None\<rparr>],
         app_newHabit = ''  Drink Water ''\<rparr>) (DayKey 19675)
       = Some \<lparr>habits = Some [''wake'' \<mapsto> True, ''drink-water'' \<mapsto> False]\<rparr>
   \<and> app_history (handleAddHabit 1700000000000
        \<lparr>app_habits = [\<lparr>hid = ''wake'', label = ''Wake up early''\<rparr>],
         app_history = [DayKey 19675 \<mapsto> \<lparr>habits = Some [''wake'' \<mapsto> True]\<rparr>,
                        DayKey 19674 \<mapsto> \<lparr>habits = None\<rparr>],
         app_newHabit = ''  Drink Water ''\<rparr>) (DayKey 19674)
       = Some \<lparr>habits = Some [''drink-water'' \<mapsto> False]\<rparr>
   \<and> app_history (handleAddHabit 1700000000000
        \<lparr>app_habits = [\<lparr>hid = ''wake'', label = ''Wake up early''\<rparr>],
         app_history = [DayKey 19675 \<mapsto> \<lparr>habits = Some [''wake'' \<mapsto> True]\<rparr>,
                        DayKey 19674 \<mapsto> \<lparr>habits = None\<rparr>],
         app_newHabit = ''  Drink Water ''\<rparr>) (DayKey 19673) = None
   \<and> app_history (handleDeleteHabit ''read''
        \<lparr>app_habits = [\<lparr>hid = ''wake'', label = ''Wake up early''\<rparr>, \<lparr>hid = ''read'', label = ''Reading''\<rparr>],
         app_history = [DayKey 19675 \<mapsto> \<lparr>habits = Some [''wake'' \<mapsto> True, ''read'' \<mapsto> True]\<rparr>,
                        DayKey 19674 \<mapsto> \<lparr>habits = None\<rparr>],
         app_newHabit = []\<rparr>) (DayKey 19675)
       = Some \<lparr>habits = Some [''wake'' \<mapsto> True]\<rparr>
   \<and> app_history (handleDeleteHabit ''read''
        \<lparr>app_habits = [\<lparr>hid = ''wake'', label = ''Wake up early''\<rparr>, \<lparr>hid = ''read'', label = ''Reading''\<rparr>],
         app_history = [DayKey 19675 \<mapsto> \<lparr>habits = Some [''wake'' \<mapsto> True, ''read'' \<mapsto> True]\<rparr>,
                        DayKey 19674 \<mapsto> \<lparr>habits = None\<rparr>],
         app_newHabit = []\<rparr>) (DayKey 19674)
       = Some \<lparr>habits = None\<rparr>"
proof -
  let ?st = "\<lparr>app_habits = [\<lparr>hid = ''wake'', label = ''Wake up early''\<rparr>],
         app_history = [DayKey 19675 \<mapsto> \<lparr>habits = Some [''wake'' \<mapsto> True]\<rparr>,
                        DayKey 19674 \<mapsto> \<lparr>habits = None\<rparr>],
         app_newHabit = ''  Drink Water ''\<rparr>"
  let ?sd = "\<lparr>app_habits = [\<lparr>hid = ''wake'', label = ''Wake up early''\<rparr>, \<lparr>hid = ''read'', label = ''Reading''\<rparr>],
         app_history = [DayKey 19675 \<mapsto> \<lparr>habits = Some [''wake'' \<mapsto> True, ''read'' \<mapsto> True]\<rparr>,
                        DayKey 19674 \<mapsto> \<lparr>habits = None\<rparr>],
         app_newHabit = []\<rparr>"
  let ?add = "handleAddHabit 1700000000000 ?st"
  let ?del = "handleDeleteHabit ''read'' ?sd"
  have t: "js_trim ''  Drink Water '' = ''Drink Water''" by code_simp
  have s: "slugify 1700000000000 ''Drink Water'' = ''drink-water''" by code_simp
  have n: "\<not> list_ex (\<lambda>h. hid h = ''drink-water'') [\<lparr>hid = ''wake'', label = ''Wake up early''\<rparr>]"
    by simp
  have hyp: "js_trim (app_newHabit ?st) \<noteq> []
      \<and> \<not> list_ex (\<lambda>h. hid h = slugify 1700000000000 (js_trim (app_newHabit ?st))) (app_habits ?st)"
    by (simp add: t s)
  have tr: "js_trim (app_newHabit ?st) = ''Drink Water''"
    by (simp add: t)
  note add = C9_habit_sync[of ?st 1700000000000, THEN conjunct1, rule_format, OF hyp,
      unfolded tr s]
  from add have 1: "app_habits ?add
          = [\<lparr>hid = ''wake'', label = ''Wake up early''\<rparr>,
             \<lparr>hid = ''drink-water'', label = ''Drink Water''\<rparr>]"
    by simp
  have k5: "app_history ?st (DayKey 19675) = Some \<lparr>habits = Some [''wake'' \<mapsto> True]\<rparr>"
    and k4: "app_history ?st (DayKey 19674) = Some \<lparr>habits = None\<rparr>"
    and k3: "app_history ?st (DayKey 19673) = None"
    by simp_all
  from add k3 have 4: "app_history ?add (DayKey 19673) = None" by blast
  from add k5 obtain e m where e: "app_history ?add (DayKey 19675) = Some e"
    and m: "habits e = Some m" and f: "m ''drink-water'' = Some False"
    and o: "\<forall>k. k \<noteq> ''drink-water'' \<longrightarrow>
              m k = (case habits \<lparr>habits = Some [''wake'' \<mapsto> True]\<rparr> of
                       None \<Rightarrow> None | Some old \<Rightarrow> old k)"
    by blast
  have "m = [''wake'' \<mapsto> True, ''drink-water'' \<mapsto> False]"
  proof (rule ext)
    fix k show "m k = [''wake'' \<mapsto> True, ''drink-water'' \<mapsto> False] k"
      using f o by (cases "k = ''drink-water''") simp_all
  qed
  with e m have 2: "app_history ?add (DayKey 19675)
       = Some \<lparr>habits = Some [''wake'' \<mapsto> True, ''drink-water'' \<mapsto> False]\<rparr>"
    by (cases e) simp
  from add k4 obtain e' m' where e': "app_history ?add (DayKey 19674) = Some e'"
    and m': "habits e' = Some m'" and f': "m' ''drink-water'' = Some False"
    and o': "\<forall>k. k \<noteq> ''drink-water'' \<longrightarrow>
              m' k = (case habits \<lparr>habits = None\<rparr> of None \<Rightarrow> None | Some old \<Rightarrow> old k)"
    by blast
  have "m' = [''drink-water'' \<mapsto> False]"
  proof (rule ext)
    fix k show "m' k = [''drink-water'' \<mapsto> False] k"
      using f' o' by (cases "k = ''drink-water''") simp_all
  qed
  with e' m' have 3: "app_history ?add (DayKey 19674)
       = Some \<lparr>habits = Some [''drink-water'' \<mapsto> False]\<rparr>"
    by (cases e') simp
  note del = C9_habit_sync[of ?sd 1700000000000 "''read''", THEN conjunct2, THEN conjunct2]
  have j5: "app_history ?sd (DayKey 19675)
            = Some \<lparr>habits = Some [''wake'' \<mapsto> True, ''read'' \<mapsto> True]\<rparr>
            \<and> habits \<lparr>habits = Some [''wake'' \<mapsto> True, ''read'' \<mapsto> True]\<rparr>
              = Some [''wake'' \<mapsto> True, ''read'' \<mapsto> True]"
    and j4: "app_history ?sd (DayKey 19674) = Some \<lparr>habits = None\<rparr>
             \<and> habits \<lparr>habits = None\<rparr> = None"
    by simp_all
  from del j4 have 6: "app_history ?del (DayKey 19674) = Some \<lparr>habits = None\<rparr>" by blast
  from del j5 obtain d q where d: "app_history ?del (DayKey 19675) = Some d"
    and q: "habits d = Some q" and g: "q ''read'' = None"
    and r: "\<forall>k. k \<noteq> ''read'' \<longrightarrow> q k = [''wake'' \<mapsto> True, ''read'' \<mapsto> True] k"
    by blast
  have "q = [''wake'' \<mapsto> True]"
  proof (rule ext)
    fix k show "q k = [''wake'' \<mapsto> True] k"
      using g r by (cases "k = ''read''") simp_all
  qed
  with d q have 5: "app_history ?del (DayKey 19675) = Some \<lparr>habits = Some [''wake'' \<mapsto> True]\<rparr>"
    by (cases d) simp
  from t s n 1 2 3 4 5 6 show ?thesis by blast
qed

section \<open>Properties of the POST /api/data handler\<close>

text \<open>
  C8: for every request body that reaches the handler (a JSON object or array, or no
  body; the JSON parser in front of the route answers 400 to any other JSON value), with
  the identity header present and the store answering, the handler upserts the update
  under the identity and returns the saved document.  The habits of the update are the
  seven default habits whenever the \<open>habits\<close> field of the body is missing, not an array,
  or an empty array, and the body's own habits when it is a nonempty array; a missing
  (or falsy) \<open>history\<close> or \<open>tasksByDate\<close> becomes the empty object, and one that is
  present is stored as sent.
\<close>

theorem C8_post_data:
  "(express_json raw = Inr body \<and> mobile \<noteq> []
      \<and> findOneAndUpdate mobile (post_update mobile body) = Some saved
      \<longrightarrow> post_data findOneAndUpdate (Some mobile) raw
            = Json 200 (JObj [(''habits'', doc_habits saved), (''history'', doc_history saved),
                              (''tasksByDate'', doc_tasksByDate saved)]))
   \<and> (is_primitive v \<longrightarrow> post_data findOneAndUpdate header (Some v) = ErrorPage 400)
   \<and> express_json None = Inr None
   \<and> express_json (Some (JArr items)) = Inr (Some (JArr items))
   \<and> express_json (Some (JObj kvs)) = Inr (Some (JObj kvs))
   \<and> doc_mobile (post_update mobile body) = mobile
   \<and> ((\<forall>x xs. map_of kvs ''habits'' \<noteq> Some (JArr (x # xs)))
      \<longrightarrow> doc_habits (post_update mobile (Some (JObj kvs))) = JArr DEFAULT_HABITS)
   \<and> (map_of kvs ''habits'' = Some (JArr (x # xs))
      \<longrightarrow> doc_habits (post_update mobile (Some (JObj kvs))) = JArr (x # xs))
   \<and> length DEFAULT_HABITS = 7
   \<and> (map_of kvs ''history'' = None
      \<longrightarrow> doc_history (post_update mobile (Some (JObj kvs))) = JObj [])
   \<and> (map_of kvs ''history'' = Some h
      \<longrightarrow> doc_history (post_update mobile (Some (JObj kvs))) = (if truthy h then h else JObj []))
   \<and> (map_of kvs ''tasksByDate'' = None
      \<longrightarrow> doc_tasksByDate (post_update mobile (Some (JObj kvs))) = JObj [])
   \<and> (map_of kvs ''tasksByDate'' = Some t
      \<longrightarrow> doc_tasksByDate (post_update mobile (Some (JObj kvs))) = (if truthy t then t else JObj []))
   \<and> post_update mobile None
      = \<lparr>doc_mobile = mobile, doc_habits = JArr DEFAULT_HABITS, doc_history = JObj [],
         doc_tasksByDate = JObj []\<rparr>
   \<and> post_update mobile (Some (JArr items))
      = \<lparr>doc_mobile = mobile, doc_habits = JArr DEFAULT_HABITS, doc_history = JObj [],
         doc_tasksByDate = JObj []\<rparr>"
proof (intro conjI impI)
  assume a: "express_json raw = Inr body \<and> mobile \<noteq> []
      \<and> findOneAndUpdate mobile (post_update mobile body) = Some saved"
  then show "post_data findOneAndUpdate (Some mobile) raw
            = Json 200 (JObj [(''habits'', doc_habits saved), (''history'', doc_history saved),
                              (''tasksByDate'', doc_tasksByDate saved)])"
    by (simp add: post_data_def)
next
  assume "is_primitive v"
  then show "post_data findOneAndUpdate header (Some v) = ErrorPage 400"
    by (simp add: post_data_def express_json_def)
next
  show "express_json None = Inr None"
    by (simp add: express_json_def)
  show "express_json (Some (JArr items)) = Inr (Some (JArr items))"
    by (simp add: express_json_def)
  show "express_json (Some (JObj kvs)) = Inr (Some (JObj kvs))"
    by (simp add: express_json_def)
  show "doc_mobile (post_update mobile body) = mobile"
    by (simp add: post_update_def Let_def)
  show "length DEFAULT_HABITS = 7"
    by (simp add: DEFAULT_HABITS_def)
  show "post_update mobile None
      = \<lparr>doc_mobile = mobile, doc_habits = JArr DEFAULT_HABITS, doc_history = JObj [],
         doc_tasksByDate = JObj []\<rparr>"
    by (simp add: post_update_def body_or_empty_def Let_def DEFAULT_HABITS_def)
  show "post_update mobile (Some (JArr items))
      = \<lparr>doc_mobile = mobile, doc_habits = JArr DEFAULT_HABITS, doc_history = JObj [],
         doc_tasksByDate = JObj []\<rparr>"
    by (simp add: post_update_def body_or_empty_def Let_def DEFAULT_HABITS_def)
next
  assume a: "\<forall>x xs. map_of kvs ''habits'' \<noteq> Some (JArr (x # xs))"
  show "doc_habits (post_update mobile (Some (JObj kvs))) = JArr DEFAULT_HABITS"
  proof (cases "map_of kvs ''habits''")
    case None
    then show ?thesis
      by (simp add: post_update_def body_or_empty_def Let_def DEFAULT_HABITS_def)
  next
    case (Some w)
    show ?thesis
    proof (cases w)
      case (JArr ys)
      with a Some have "ys = []" by (cases ys) auto
      with Some JArr show ?thesis
        by (simp add: post_update_def body_or_empty_def Let_def)
    qed (use Some in \<open>simp_all add: post_update_def body_or_empty_def Let_def\<close>)
  qed
next
  assume "map_of kvs ''habits'' = Some (JArr (x # xs))"
  then show "doc_habits (post_update mobile (Some (JObj kvs))) = JArr (x # xs)"
    by (simp add: post_update_def body_or_empty_def Let_def)
next
  assume "map_of kvs ''history'' = None"
  then show "doc_history (post_update mobile (Some (JObj kvs))) = JObj []"
    by (simp add: post_update_def body_or_empty_def Let_def)
next
  assume "map_of kvs ''history'' = Some h"
  then show "doc_history (post_update mobile (Some (JObj kvs))) = (if truthy h then h else JObj [])"
    by (simp add: post_update_def body_or_empty_def Let_def)
next
  assume "map_of kvs ''tasksByDate'' = None"
  then show "doc_tasksByDate (post_update mobile (Some (JObj kvs))) = JObj []"
    by (simp add: post_update_def body_or_empty_def Let_def)
next
  assume "map_of kvs ''tasksByDate'' = Some t"
  then show "doc_tasksByDate (post_update mobile (Some (JObj kvs))) = (if truthy t then t else JObj [])"
    by (simp add: post_update_def body_or_empty_def Let_def)
qed

theorem C8_post_data_witness:
  "post_data (\<lambda>mobile update. Some update) (Some ''9876543210'')
     (Some (JObj [(''habits'', JArr [JObj [(''id'', JStr ''run''), (''label'', JStr ''Run'')]]),
                  (''history'', JObj [(''2023-11-14'', JObj [(''habits'', JObj [(''run'', JBool True)])])]),
                  (''tasksByDate'', JObj [(''2023-11-14'', JArr [])])]))
   = Json 200
       (JObj [(''habits'', JArr [JObj [(''id'', JStr ''run''), (''label'', JStr ''Run'')]]),
              (''history'', JObj [(''2023-11-14'', JObj [(''habits'', JObj [(''run'', JBool True)])])]),
              (''tasksByDate'', JObj [(''2023-11-14'', JArr [])])])
   \<and> post_data (\<lambda>mobile update. Some update) (Some ''9876543210'')
       (Some (JObj [(''habits'', JStr ''none''), (''history'', JNull)]))
     = Json 200 (JObj [(''habits'', JArr DEFAULT_HABITS), (''history'', JObj []),
                       (''tasksByDate'', JObj [])])
   \<and> post_data (\<lambda>mobile update. Some update) (Some ''9876543210'') (Some (JStr ''none''))
     = ErrorPage 400"
proof -
  let ?hab = "JArr [JObj [(''id'', JStr ''run''), (''label'', JStr ''Run'')]]"
  let ?his = "JObj [(''2023-11-14'', JObj [(''habits'', JObj [(''run'', JBool True)])])]"
  let ?tas = "JObj [(''2023-11-14'', JArr [])]"
  let ?kvs = "[(''habits'', ?hab), (''history'', ?his), (''tasksByDate'', ?tas)]"
  let ?lvs = "[(''habits'', JStr ''none''), (''history'', JNull)]"
  let ?m = "''9876543210''"
  let ?db = "\<lambda>mobile update. Some update :: document option"
  let ?u = "post_update ?m (Some (JObj ?kvs))"
  let ?w = "post_update ?m (Some (JObj ?lvs))"
  note a = C8_post_data[where raw = "Some (JObj ?kvs)" and body = "Some (JObj ?kvs)"
      and kvs = ?kvs and mobile = ?m and findOneAndUpdate = ?db and saved = ?u
      and x = "JObj [(''id'', JStr ''run''), (''label'', JStr ''Run'')]" and xs = "[]"
      and h = ?his and t = ?tas]
  have k1: "map_of ?kvs ''habits'' = Some (JArr [JObj [(''id'', JStr ''run''), (''label'', JStr ''Run'')]])"
    and k2: "map_of ?kvs ''history'' = Some ?his"
    and k3: "map_of ?kvs ''tasksByDate'' = Some ?tas"
    by simp_all
  from a have e: "express_json (Some (JObj ?kvs)) = Inr (Some (JObj ?kvs))" by blast
  have s: "?m \<noteq> [] \<and> ?db ?m ?u = Some ?u" by simp
  from a e s have r: "post_data ?db (Some ?m) (Some (JObj ?kvs))
      = Json 200 (JObj [(''habits'', doc_habits ?u), (''history'', doc_history ?u),
                        (''tasksByDate'', doc_tasksByDate ?u)])"
    by blast
  from a k1 have u1: "doc_habits ?u = ?hab" by blast
  from a k2 have "doc_history ?u = (if truthy ?his then ?his else JObj [])" by blast
  then have u2: "doc_history ?u = ?his" by simp
  from a k3 have "doc_tasksByDate ?u = (if truthy ?tas then ?tas else JObj [])" by blast
  then have u3: "doc_tasksByDate ?u = ?tas" by simp
  from r have 1: "post_data ?db (Some ?m) (Some (JObj ?kvs))
      = Json 200 (JObj [(''habits'', ?hab), (''history'', ?his), (''tasksByDate'', ?tas)])"
    unfolding u1 u2 u3 .
  note b = C8_post_data[where raw = "Some (JObj ?lvs)" and body = "Some (JObj ?lvs)"
      and kvs = ?lvs and mobile = ?m and findOneAndUpdate = ?db and saved = ?w
      and h = JNull and v = "JStr ''none''" and header = "Some ?m"]
  have l1: "\<forall>x xs. map_of ?lvs ''habits'' \<noteq> Some (JArr (x # xs))"
    and l2: "map_of ?lvs ''history'' = Some JNull"
    and l3: "map_of ?lvs ''tasksByDate'' = None"
    by simp_all
  from b have e': "express_json (Some (JObj ?lvs)) = Inr (Some (JObj ?lvs))" by blast
  have s': "?m \<noteq> [] \<and> ?db ?m ?w = Some ?w" by simp
  from b e' s' have r': "post_data ?db (Some ?m) (Some (JObj ?lvs))
      = Json 200 (JObj [(''habits'', doc_habits ?w), (''history'', doc_history ?w),
                        (''tasksByDate'', doc_tasksByDate ?w)])"
    by blast
  from b l1 have w1: "doc_habits ?w = JArr DEFAULT_HABITS" by blast
  from b l2 have "doc_history ?w = (if truthy JNull then JNull else JObj [])" by blast
  then have w2: "doc_history ?w = JObj []" by simp
  from b l3 have w3: "doc_tasksByDate ?w = JObj []" by blast
  from r' have 2: "post_data ?db (Some ?m) (Some (JObj ?lvs))
      = Json 200 (JObj [(''habits'', JArr DEFAULT_HABITS), (''history'', JObj []),
                        (''tasksByDate'', JObj [])])"
    unfolding w1 w2 w3 .
  have "is_primitive (JStr ''none'')" by simp
  with b have 3: "post_data ?db (Some ?m) (Some (JStr ''none'')) = ErrorPage 400" by blast
  from 1 2 3 show ?thesis by blast
qed

section \<open>Properties of the reminder scheduler\<close>

lemma set_obj_insert_index: "set (obj_insert_index k v obj) = insert (k, v) (set obj)"
  by (induction obj) (auto split: if_splits)

lemma set_obj_set_new:
  "k \<notin> fst ` set obj \<Longrightarrow> set (obj_set k v obj) = insert (k, v) (set obj)"
  by (simp add: obj_set_def set_obj_insert_index)

lemma set_obj_assign_new:
  "k \<noteq> ''__proto__'' \<Longrightarrow> k \<notin> fst ` set obj \<Longrightarrow>
   set (obj_assign k v obj) = insert (k, v) (set obj)"
  by (simp add: obj_assign_def set_obj_set_new)

lemma clearTimeouts_tracked:
  "tracked st \<Longrightarrow> clearTimeouts (map snd (current st)) (pending st) = []"
  by (fastforce simp: tracked_def clearTimeouts_def filter_empty_conv image_iff subset_iff)

lemma schedule_task_skip:
  assumes "\<not> gets_action parse now (date, t)"
    and "reminderTime t \<noteq> [] \<longrightarrow> parse date (reminderTime t) \<noteq> None"
  shows "schedule_task parse now date st t = st"
  using assms by (auto simp: gets_action_def schedule_task_def Let_def split: option.splits)

lemma schedule_task_add:
  assumes "gets_action parse now (date, t)"
  shows "schedule_task parse now date st t
           = st\<lparr>pending := pending st
                   @ [(nextId st, t, map_option (\<lambda>due. due - now) (parse date (reminderTime t)))],
                nextId := nextId st + 1,
                current := obj_assign (task_id t) (nextId st) (current st)\<rparr>"
  using assms by (auto simp: gets_action_def schedule_task_def Let_def split: option.splits)

lemma schedule_task_step:
  assumes "tracked st" "task_id t \<noteq> ''__proto__''" "task_id t \<notin> fst ` set (current st)"
    and "reminderTime t \<noteq> [] \<longrightarrow> parse date (reminderTime t) \<noteq> None"
  shows "tracked (schedule_task parse now date st t)
       \<and> map snd (pending (schedule_task parse now date st t))
           = map snd (pending st)
             @ map (\<lambda>dt. (snd dt, map_option (\<lambda>due. due - now) (parse (fst dt) (reminderTime (snd dt)))))
                 (filter (gets_action parse now) [(date, t)])
       \<and> fst ` set (current (schedule_task parse now date st t))
           \<subseteq> insert (task_id t) (fst ` set (current st))"
proof (cases "gets_action parse now (date, t)")
  case False
  then show ?thesis using assms(1,4) by (auto simp: schedule_task_skip)
next
  case True
  note s = schedule_task_add[OF True, of st]
  have c: "set (obj_assign (task_id t) (nextId st) (current st))
           = insert (task_id t, nextId st) (set (current st))"
    using assms(2,3) by (rule set_obj_assign_new)
  show ?thesis
    using True assms(1) unfolding s by (auto simp: tracked_def c)
qed

lemma schedule_fold:
  assumes "tracked st"
    and "distinct (map (\<lambda>dt. task_id (snd dt)) dts)"
    and "''__proto__'' \<notin> (\<lambda>dt. task_id (snd dt)) ` set dts"
    and "fst ` set (current st) \<inter> (\<lambda>dt. task_id (snd dt)) ` set dts = {}"
    and "\<forall>dt\<in>set dts. reminderTime (snd dt) \<noteq> []
           \<longrightarrow> parse (fst dt) (reminderTime (snd dt)) \<noteq> None"
  shows "tracked (foldl (\<lambda>st dt. schedule_task parse now (fst dt) st (snd dt)) st dts)
       \<and> map snd (pending (foldl (\<lambda>st dt. schedule_task parse now (fst dt) st (snd dt)) st dts))
           = map snd (pending st)
             @ map (\<lambda>dt. (snd dt, map_option (\<lambda>due. due - now) (parse (fst dt) (reminderTime (snd dt)))))
                 (filter (gets_action parse now) dts)
       \<and> fst ` set (current (foldl (\<lambda>st dt. schedule_task parse now (fst dt) st (snd dt)) st dts))
           \<subseteq> fst ` set (current st) \<union> (\<lambda>dt. task_id (snd dt)) ` set dts"
  using assms
proof (induction dts arbitrary: st)
  case Nil
  then show ?case by simp
next
  case (Cons dt dts)
  obtain date t where dt: "dt = (date, t)" by (cases dt)
  let ?act = "\<lambda>dt. (snd dt, map_option (\<lambda>due. due - now) (parse (fst dt) (reminderTime (snd dt))))"
  let ?s = "schedule_task parse now date st t"
  have np: "task_id t \<noteq> ''__proto__''" using Cons.prems(3) dt by auto
  have nk: "task_id t \<notin> fst ` set (current st)" using Cons.prems(4) dt by auto
  have va: "reminderTime t \<noteq> [] \<longrightarrow> parse date (reminderTime t) \<noteq> None"
    using Cons.prems(5) dt by auto
  from schedule_task_step[where parse = parse and date = date and now = now,
      OF Cons.prems(1) np nk va]
  have tr: "tracked ?s"
    and pe: "map snd (pending ?s)
             = map snd (pending st) @ map ?act (filter (gets_action parse now) [(date, t)])"
    and cu: "fst ` set (current ?s) \<subseteq> insert (task_id t) (fst ` set (current st))"
    by blast+
  have d: "distinct (map (\<lambda>dt. task_id (snd dt)) dts)" using Cons.prems(2) by simp
  have p: "''__proto__'' \<notin> (\<lambda>dt. task_id (snd dt)) ` set dts" using Cons.prems(3) by auto
  have nt: "task_id t \<notin> (\<lambda>dt. task_id (snd dt)) ` set dts" using Cons.prems(2) dt by auto
  have old: "fst ` set (current st) \<inter> (\<lambda>dt. task_id (snd dt)) ` set dts = {}"
    using Cons.prems(4) by auto
  have v: "\<forall>dt\<in>set dts. reminderTime (snd dt) \<noteq> []
           \<longrightarrow> parse (fst dt) (reminderTime (snd dt)) \<noteq> None"
    using Cons.prems(5) by simp
  have "fst ` set (current ?s) \<inter> (\<lambda>dt. task_id (snd dt)) ` set dts
        \<subseteq> insert (task_id t) (fst ` set (current st)) \<inter> (\<lambda>dt. task_id (snd dt)) ` set dts"
    using cu by blast
  also have "\<dots> = {}" using nt old by blast
  finally have k: "fst ` set (current ?s) \<inter> (\<lambda>dt. task_id (snd dt)) ` set dts = {}"
    by blast
  let ?f = "foldl (\<lambda>st dt. schedule_task parse now (fst dt) st (snd dt)) ?s dts"
  from Cons.IH[OF tr d p k v]
  have 1: "tracked ?f"
    and 2: "map snd (pending ?f)
            = map snd (pending ?s) @ map ?act (filter (gets_action parse now) dts)"
    and 3: "fst ` set (current ?f)
            \<subseteq> fst ` set (current ?s) \<union> (\<lambda>dt. task_id (snd dt)) ` set dts"
    by blast+
  have f: "foldl (\<lambda>st dt. schedule_task parse now (fst dt) st (snd dt)) st (dt # dts) = ?f"
    by (simp add: dt)
  have 4: "map snd (pending ?f)
           = map snd (pending st) @ map ?act (filter (gets_action parse now) (dt # dts))"
    unfolding 2 pe by (simp add: dt)
  have 5: "fst ` set (current ?f)
           \<subseteq> fst ` set (current st) \<union> (\<lambda>dt. task_id (snd dt)) ` set (dt # dts)"
    using 3 cu by (auto simp: dt)
  from 1 4 5 show ?case unfolding f by blast
qed

lemma nested_fold:
  "foldl (\<lambda>st (date, list). foldl (schedule_task parse now date) st list) st tasksByDate
   = foldl (\<lambda>st dt. schedule_task parse now (fst dt) st (snd dt)) st (all_tasks tasksByDate)"
proof (induction tasksByDate arbitrary: st)
  case Nil
  then show ?case by (simp add: all_tasks_def)
next
  case (Cons e es)
  obtain date list where e: "e = (date, list)" by (cases e)
  have "foldl (\<lambda>st dt. schedule_task parse now (fst dt) st (snd dt)) st (map (Pair date) list)
        = foldl (schedule_task parse now date) st list"
    by (induction list arbitrary: st) simp_all
  then show ?case
    using Cons.IH by (simp add: e all_tasks_def)
qed

text \<open>
  C7 (amended): for every current time and every tasks-by-date snapshot whose task ids
  are distinct, none of them \<open>__proto__\<close>, and whose reminders are dates (the date of
  the task with its non-empty reminder time is read as an instant), when every pending
  action is registered in \<open>ref.current\<close>, \<open>scheduleReminders\<close> first cancels every pending
  action and then registers exactly one one-shot action, with the delay to its fire
  instant, for each task whose reminder time is not empty and whose fire instant is
  strictly after \<open>now\<close>, and none for any other task: none for a task whose fire instant
  is in the past (or at \<open>now\<close>), and none for a task that is no longer in the snapshot.
  Every pending action is then registered again, so the same holds at the next change.
\<close>

theorem C7_scheduleReminders:
  assumes "tracked st"
    and "distinct (map (\<lambda>dt. task_id (snd dt)) (all_tasks tasksByDate))"
    and "''__proto__'' \<notin> (\<lambda>dt. task_id (snd dt)) ` set (all_tasks tasksByDate)"
    and "\<forall>dt\<in>set (all_tasks tasksByDate). reminderTime (snd dt) \<noteq> []
           \<longrightarrow> parse (fst dt) (reminderTime (snd dt)) \<noteq> None"
  shows "clearTimeouts (map snd (current st)) (pending st) = []
       \<and> map snd (pending (scheduleReminders parse now tasksByDate st))
           = map (\<lambda>dt. (snd dt, map_option (\<lambda>due. due - now) (parse (fst dt) (reminderTime (snd dt)))))
               (filter (gets_action parse now) (all_tasks tasksByDate))
       \<and> (\<forall>dt\<in>set (all_tasks tasksByDate).
             snd dt \<in> (\<lambda>p. fst (snd p)) ` set (pending (scheduleReminders parse now tasksByDate st))
             \<longleftrightarrow> gets_action parse now dt)
       \<and> (\<forall>t. t \<notin> snd ` set (all_tasks tasksByDate)
             \<longrightarrow> t \<notin> (\<lambda>p. fst (snd p)) ` set (pending (scheduleReminders parse now tasksByDate st)))
       \<and> tracked (scheduleReminders parse now tasksByDate st)"
proof -
  let ?init = "st\<lparr>pending := clearTimeouts (map snd (current st)) (pending st), current := []\<rparr>"
  let ?dts = "all_tasks tasksByDate"
  let ?s = "scheduleReminders parse now tasksByDate st"
  let ?act = "\<lambda>dt. (snd dt, map_option (\<lambda>due. due - now) (parse (fst dt) (reminderTime (snd dt))))"
  have cl: "clearTimeouts (map snd (current st)) (pending st) = []"
    using assms(1) by (rule clearTimeouts_tracked)
  have s: "?s = foldl (\<lambda>st dt. schedule_task parse now (fst dt) st (snd dt)) ?init ?dts"
    unfolding scheduleReminders_def by (rule nested_fold)
  have t0: "tracked ?init" by (simp add: tracked_def cl)
  have k0: "fst ` set (current ?init) \<inter> (\<lambda>dt. task_id (snd dt)) ` set ?dts = {}" by simp
  have tr: "tracked ?s"
    and pe: "map snd (pending ?s) = map ?act (filter (gets_action parse now) ?dts)"
    using schedule_fold[where parse = parse and now = now, OF t0 assms(2,3) k0 assms(4)]
    by (simp_all add: s cl)
  have "map fst (map snd (pending ?s)) = map fst (map ?act (filter (gets_action parse now) ?dts))"
    by (simp only: pe)
  then have pt: "map (\<lambda>p. fst (snd p)) (pending ?s) = map snd (filter (gets_action parse now) ?dts)"
    by (simp add: comp_def)
  have pset: "(\<lambda>p. fst (snd p)) ` set (pending ?s) = snd ` set (filter (gets_action parse now) ?dts)"
    using pt by (metis list.set_map)
  have inj: "inj_on (\<lambda>dt. task_id (snd dt)) (set ?dts)"
    using assms(2) by (simp add: distinct_map)
  have iff: "snd dt \<in> (\<lambda>p. fst (snd p)) ` set (pending ?s) \<longleftrightarrow> gets_action parse now dt"
    if dt: "dt \<in> set ?dts" for dt
  proof
    assume "snd dt \<in> (\<lambda>p. fst (snd p)) ` set (pending ?s)"
    then obtain dt' where dt': "dt' \<in> set ?dts" "gets_action parse now dt'" "snd dt' = snd dt"
      unfolding pset by auto
    then have "task_id (snd dt') = task_id (snd dt)" by simp
    with inj dt dt'(1) have "dt' = dt" by (auto dest: inj_onD)
    with dt'(2) show "gets_action parse now dt" by simp
  next
    assume "gets_action parse now dt"
    with dt show "snd dt \<in> (\<lambda>p. fst (snd p)) ` set (pending ?s)"
      unfolding pset by auto
  qed
  have gone: "t \<notin> (\<lambda>p. fst (snd p)) ` set (pending ?s)" if "t \<notin> snd ` set ?dts" for t
    using that unfolding pset by auto
  from cl pe iff gone tr show ?thesis by blast
qed

theorem C7_scheduleReminders_witness:
  "tracked \<lparr>pending = [(7, \<lparr>task_id = ''old'', task_text = ''Gone'', task_done = False, reminderTime = ''07:00''\<rparr>,
                          Some 5000)],
            nextId = 8, current = [(''old'', 7)]\<rparr>
   \<and> distinct [''a1'', ''b2'', ''c3'']
   \<and> ''__proto__'' \<notin> set [''a1'', ''b2'', ''c3'']
   \<and> map snd (pending (scheduleReminders sample_due 1700000000000
        [(''2030-01-01'',
          [\<lparr>task_id = ''a1'', task_text = ''Call'', task_done = False, reminderTime = ''09:00''\<rparr>,
           \<lparr>task_id = ''b2'', task_text = ''Walk'', task_done = False, reminderTime = []\<rparr>]),
         (''2020-01-01'',
          [\<lparr>task_id = ''c3'', task_text = ''Pay'', task_done = True, reminderTime = ''08:00''\<rparr>])]
        \<lparr>pending = [(7, \<lparr>task_id = ''old'', task_text = ''Gone'', task_done = False, reminderTime = ''07:00''\<rparr>,
                      Some 5000)],
         nextId = 8, current = [(''old'', 7)]\<rparr>))
       = [(\<lparr>task_id = ''a1'', task_text = ''Call'', task_done = False, reminderTime = ''09:00''\<rparr>,
           Some 200000000000)]
   \<and> tracked (scheduleReminders sample_due 1700000000000
        [(''2030-01-01'',
          [\<lparr>task_id = ''a1'', task_text = ''Call'', task_done = False, reminderTime = ''09:00''\<rparr>,
           \<lparr>task_id = ''b2'', task_text = ''Walk'', task_done = False, reminderTime = []\<rparr>]),
         (''2020-01-01'',
          [\<lparr>task_id = ''c3'', task_text = ''Pay'', task_done = True, reminderTime = ''08:00''\<rparr>])]
        \<lparr>pending = [(7, \<lparr>task_id = ''old'', task_text = ''Gone'', task_done = False, reminderTime = ''07:00''\<rparr>,
                      Some 5000)],
         nextId = 8, current = [(''old'', 7)]\<rparr>)"
proof -
  let ?a = "\<lparr>task_id = ''a1'', task_text = ''Call'', task_done = False, reminderTime = ''09:00''\<rparr>"
  let ?b = "\<lparr>task_id = ''b2'', task_text = ''Walk'', task_done = False, reminderTime = []\<rparr>"
  let ?c = "\<lparr>task_id = ''c3'', task_text = ''Pay'', task_done = True, reminderTime = ''08:00''\<rparr>"
  let ?o = "\<lparr>task_id = ''old'', task_text = ''Gone'', task_done = False, reminderTime = ''07:00''\<rparr>"
  let ?tbd = "[(''2030-01-01'', [?a, ?b]), (''2020-01-01'', [?c])]"
  let ?st = "\<lparr>pending = [(7, ?o, Some 5000)], nextId = 8, current = [(''old'', 7)]\<rparr>"
  have all: "all_tasks ?tbd = [(''2030-01-01'', ?a), (''2030-01-01'', ?b), (''2020-01-01'', ?c)]"
    by (simp add: all_tasks_def)
  have t: "tracked ?st" by (simp add: tracked_def)
  have d: "distinct (map (\<lambda>dt. task_id (snd dt)) (all_tasks ?tbd))"
    by (simp add: all)
  have p: "''__proto__'' \<notin> (\<lambda>dt. task_id (snd dt)) ` set (all_tasks ?tbd)"
    by (simp add: all)
  have v: "\<forall>dt\<in>set (all_tasks ?tbd). reminderTime (snd dt) \<noteq> []
           \<longrightarrow> sample_due (fst dt) (reminderTime (snd dt)) \<noteq> None"
    by (simp add: sample_due_def)
  have g: "filter (gets_action sample_due 1700000000000) (all_tasks ?tbd) = [(''2030-01-01'', ?a)]"
    by (simp add: all gets_action_def sample_due_def)
  have a: "map_option (\<lambda>due. due - 1700000000000) (sample_due ''2030-01-01'' ''09:00'')
           = Some 200000000000"
    by (simp add: sample_due_def)
  from C7_scheduleReminders[where parse = sample_due and now = 1700000000000, OF t d p v]
  have "map snd (pending (scheduleReminders sample_due 1700000000000 ?tbd ?st))
          = map (\<lambda>dt. (snd dt, map_option (\<lambda>due. due - 1700000000000)
                                   (sample_due (fst dt) (reminderTime (snd dt)))))
              (filter (gets_action sample_due 1700000000000) (all_tasks ?tbd))"
    and tr: "tracked (scheduleReminders sample_due 1700000000000 ?tbd ?st)"
    by blast+
  then have "map snd (pending (scheduleReminders sample_due 1700000000000 ?tbd ?st))
          = [(?a, Some 200000000000)]"
    unfolding g using a by simp
  with t tr show ?thesis by simp
qed

theorem C7_scheduleReminders_counterexample:
  "map fst (map snd (pending
     (scheduleReminders sample_due 1700000000000 []
       (scheduleReminders sample_due 1700000000000
         [(''2030-01-01'',
           [\<lparr>task_id = ''x'', task_text = ''Call'', task_done = False, reminderTime = ''09:00''\<rparr>]),
          (''2030-01-02'',
           [\<lparr>task_id = ''x'', task_text = ''Pay'', task_done = False, reminderTime = ''10:00''\<rparr>])]
         \<lparr>pending = [], nextId = 1, current = []\<rparr>))))
   = [\<lparr>task_id = ''x'', task_text = ''Call'', task_done = False, reminderTime = ''09:00''\<rparr>]"
  by code_simp

end
